theory Spec2Isabelle
  imports Main
begin

section \<open>Integer geometry\<close>

text \<open>
  Coordinates are \<open>coord_t\<close> micrometers. They are modelled as unbounded integers:
  no claim below depends on 64-bit overflow.
\<close>

record Point =
  X :: int
  Y :: int

record Point3 =
  px :: int
  py :: int
  pz :: int

record LineSegment =
  seg_from :: Point
  seg_to :: Point

text \<open>
  Modelled from the spec: the helpers of \<open>utils/IntPoint.h\<close> (\<open>toPoint\<close>, \<open>toPoint3\<close>,
  the operators of \<open>Point\<close> and \<open>Point3\<close>, \<open>vSize\<close>, \<open>vSize2\<close>) are not part of the
  sources at hand. "All distances are integer micrometers", and the bend computation
  "divides integer magnitudes": products and quotients are taken per coordinate, the
  quotient truncating towards zero as C++ integer division does, and a length is the
  integer part of the Euclidean norm.
\<close>

definition tdiv :: "int \<Rightarrow> int \<Rightarrow> int" where
  "tdiv a b = sgn a * sgn b * (\<bar>a\<bar> div \<bar>b\<bar>)"

function isqrt :: "nat \<Rightarrow> nat" where
  "isqrt n =
     (if n < 2 then n
      else let r = 2 * isqrt (n div 4)
           in if (r + 1) * (r + 1) \<le> n then r + 1 else r)"
  by pat_completeness auto
termination
  by (relation "measure id") auto

declare isqrt.simps [simp del]

definition toPoint :: "Point3 \<Rightarrow> Point" where
  "toPoint p = \<lparr>X = px p, Y = py p\<rparr>"

definition toPoint3 :: "Point \<Rightarrow> int \<Rightarrow> Point3" where
  "toPoint3 p h = \<lparr>px = X p, py = Y p, pz = h\<rparr>"

definition Point_plus :: "Point \<Rightarrow> Point \<Rightarrow> Point" where
  "Point_plus p q = \<lparr>X = X p + X q, Y = Y p + Y q\<rparr>"

definition Point_minus :: "Point \<Rightarrow> Point \<Rightarrow> Point" where
  "Point_minus p q = \<lparr>X = X p - X q, Y = Y p - Y q\<rparr>"

definition Point_times :: "Point \<Rightarrow> int \<Rightarrow> Point" where
  "Point_times p i = \<lparr>X = X p * i, Y = Y p * i\<rparr>"

definition Point_div :: "Point \<Rightarrow> int \<Rightarrow> Point" where
  "Point_div p i = \<lparr>X = tdiv (X p) i, Y = tdiv (Y p) i\<rparr>"

definition vSize2 :: "Point \<Rightarrow> int" where
  "vSize2 p = X p * X p + Y p * Y p"

definition vSize :: "Point \<Rightarrow> int" where
  "vSize p = int (isqrt (nat (vSize2 p)))"

definition Point3_plus :: "Point3 \<Rightarrow> Point3 \<Rightarrow> Point3" where
  "Point3_plus p q = \<lparr>px = px p + px q, py = py p + py q, pz = pz p + pz q\<rparr>"

definition Point3_minus :: "Point3 \<Rightarrow> Point3 \<Rightarrow> Point3" where
  "Point3_minus p q = \<lparr>px = px p - px q, py = py p - py q, pz = pz p - pz q\<rparr>"

definition Point3_times :: "Point3 \<Rightarrow> int \<Rightarrow> Point3" where
  "Point3_times p i = \<lparr>px = px p * i, py = py p * i, pz = pz p * i\<rparr>"

definition Point3_div :: "Point3 \<Rightarrow> int \<Rightarrow> Point3" where
  "Point3_div p i = \<lparr>px = tdiv (px p) i, py = tdiv (py p) i, pz = tdiv (pz p) i\<rparr>"

definition Point3_vSize2 :: "Point3 \<Rightarrow> int" where
  "Point3_vSize2 p = px p * px p + py p * py p + pz p * pz p"

section \<open>The subdivision structure read by the edge network\<close>

datatype Direction = LEFT | RIGHT | UP | DOWN

text \<open>
  Modelled from the spec: \<open>Cross3D::opposite\<close> is declared outside the sources at hand;
  "a helper \<open>opposite(d)\<close> swaps UP and DOWN (and, if needed, LEFT and RIGHT)".
\<close>

fun opposite :: "Direction \<Rightarrow> Direction" where
  "opposite UP = DOWN"
| "opposite DOWN = UP"
| "opposite LEFT = RIGHT"
| "opposite RIGHT = LEFT"

record Link =
  to_index :: nat

text \<open>
  Modelled from the spec: the declaration of \<open>Cross3D::Cell\<close> is outside the sources at
  hand. The fields are the ones the edge network reads: \<open>from_edge\<close> and \<open>to_edge\<close> stand
  for \<open>elem.triangle.getFromEdge()\<close> and \<open>elem.triangle.getToEdge()\<close>, \<open>z_min\<close> and
  \<open>z_max\<close> for \<open>elem.z_range.min\<close> and \<open>elem.z_range.max\<close>. The depth is a \<open>char\<close>
  (\<open>getNeighborDepth\<close> returns the field as one): a value between -128 and 127.
\<close>

record Cell =
  from_edge :: LineSegment
  to_edge :: LineSegment
  z_min :: int
  z_max :: int
  is_expanding :: bool
  depth :: int
  adjacent_cells :: "Direction \<Rightarrow> Link list"

text \<open>
  A cell is identified by its index into \<open>cell_data\<close> (the source keys its maps by the
  address of the cell). \<open>depth_ordered\<close> is the result of \<open>getDepthOrdered()\<close>.
\<close>

record Cross3D =
  cell_data :: "Cell list"
  depth_ordered :: "nat list list"

record EdgeNetwork =
  cell_to_left_edge_locations :: "nat \<rightharpoonup> Point3 list"
  cell_to_right_edge_locations :: "nat \<rightharpoonup> Point3 list"

text \<open>
  Failures are values, and every \<open>assert\<close> is checked (the build does not define
  \<open>NDEBUG\<close>). \<open>MissingEdge\<close> is the assertion that follows every \<open>find\<close> in an edge mapping, \<open>AssertionFailed\<close>
  any other assertion, \<open>OutOfBounds\<close> a read outside a container (\<open>front()\<close> of an
  empty list, an index past the end), \<open>DivisionByZero\<close> an integer division by zero.
\<close>

datatype error = MissingEdge | AssertionFailed | OutOfBounds | DivisionByZero

definition char_max :: int where
  "char_max = 127"

definition empty_network :: EdgeNetwork where
  "empty_network = \<lparr>cell_to_left_edge_locations = Map.empty,
                    cell_to_right_edge_locations = Map.empty\<rparr>"

fun foldE :: "('a \<Rightarrow> 's \<Rightarrow> error + 's) \<Rightarrow> 'a list \<Rightarrow> 's \<Rightarrow> error + 's" where
  "foldE f [] s = Inr s"
| "foldE f (a # as) s = (case f a s of Inl e \<Rightarrow> Inl e | Inr s' \<Rightarrow> foldE f as s')"

section \<open>Cross3DPrismEdgeNetwork\<close>

definition getNeighborDepth :: "Cross3D \<Rightarrow> Cell \<Rightarrow> Direction \<Rightarrow> error + int" where
  "getNeighborDepth sub cell direction =
     (let neighbors = adjacent_cells cell direction
      in if neighbors = [] then Inr char_max
         else if to_index (hd neighbors) < length (cell_data sub)
              then Inr (depth (cell_data sub ! to_index (hd neighbors)))
              else Inl OutOfBounds)"

definition insert_at :: "'a list \<Rightarrow> nat \<Rightarrow> 'a \<Rightarrow> 'a list" where
  "insert_at xs i v = take i xs @ v # drop i xs"

definition adjustEdgeEnd :: "Point3 list \<Rightarrow> Direction \<Rightarrow> Point3 \<Rightarrow> error + Point3 list" where
  "adjustEdgeEnd edge_locations up_down move_destination =
     (if edge_locations = [] then Inl OutOfBounds
      else
        let moved_idx = (if up_down = UP then length edge_locations - 1 else 0);
            to_be_moved = edge_locations ! moved_idx
        in if to_be_moved = move_destination then Inr edge_locations
           else if length edge_locations < 2 then Inl OutOfBounds
           else
             let lower_edge_location =
                   (if up_down = UP then edge_locations ! (length edge_locations - 2)
                    else edge_locations ! 1);
                 move_length = vSize (Point_minus (toPoint move_destination) (toPoint to_be_moved));
                 edge_direction_vector = Point3_minus lower_edge_location to_be_moved;
                 edge_direction_vector_length = vSize (toPoint edge_direction_vector)
             in if edge_direction_vector_length = 0 then Inl DivisionByZero
                else
                  let bending_point =
                        Point3_plus to_be_moved
                          (Point3_div (Point3_div (Point3_times edge_direction_vector move_length) 2)
                             edge_direction_vector_length);
                      moved = edge_locations[moved_idx := move_destination]
                  in if Point3_vSize2 (Point3_minus bending_point lower_edge_location) > 10 * 10
                        \<and> Point3_vSize2 (Point3_minus bending_point move_destination) > 10 * 10
                     then Inr (insert_at moved
                                 (if up_down = UP then length edge_locations - 1 else 1)
                                 bending_point)
                     else Inr moved)"

text \<open>
  The first block of \<open>applyOscillationConstraints\<close> ("get the edge_above") decides which
  mapping is read and at which cell: \<open>Some (LEFT, i)\<close> is a \<open>find\<close> of cell \<open>i\<close> in
  \<open>cell_to_left_edge_locations\<close>, \<open>Some (RIGHT, i)\<close> one in
  \<open>cell_to_right_edge_locations\<close>, and \<open>None\<close> is a return without constraint.
\<close>

definition oscillation_reference ::
  "Cross3D \<Rightarrow> Cell \<Rightarrow> Direction \<Rightarrow> Direction \<Rightarrow> error + (Direction \<times> nat) option"
where
  "oscillation_reference sub cell edge_side up_down =
     (let upstairs_neighbors = adjacent_cells cell up_down
      in if upstairs_neighbors = [] then Inr None
         else
           let upstairs_neighbor_idx =
                 (if edge_side = LEFT then to_index (hd upstairs_neighbors)
                  else to_index (last upstairs_neighbors))
           in if \<not> upstairs_neighbor_idx < length (cell_data sub) then Inl OutOfBounds
              else
                let upstairs_neighbor = cell_data sub ! upstairs_neighbor_idx;
                    upstairs_side_neighbors = adjacent_cells upstairs_neighbor edge_side
                in if upstairs_side_neighbors = [] then Inl AssertionFailed
                   else
                     let upstairs_side_neighbor_idx =
                           (if up_down = UP then to_index (hd upstairs_side_neighbors)
                            else to_index (last upstairs_side_neighbors))
                     in if \<not> upstairs_side_neighbor_idx < length (cell_data sub) then Inl OutOfBounds
                        else
                          let upstairs_side_neighbor = cell_data sub ! upstairs_side_neighbor_idx
                          in if depth cell \<ge> max (depth upstairs_neighbor) (depth upstairs_side_neighbor)
                             then Inr None
                             else if depth upstairs_neighbor > depth upstairs_side_neighbor
                                     \<or> (edge_side = RIGHT
                                         \<and> depth upstairs_neighbor = depth upstairs_side_neighbor)
                             then Inr (Some (if edge_side = LEFT then LEFT else RIGHT,
                                             upstairs_neighbor_idx))
                             else Inr (Some (if edge_side = RIGHT then LEFT else RIGHT,
                                             upstairs_side_neighbor_idx)))"

definition applyOscillationConstraints ::
  "Cross3D \<Rightarrow> EdgeNetwork \<Rightarrow> Cell \<Rightarrow> Direction \<Rightarrow> Direction \<Rightarrow> Point3 list \<Rightarrow> error + Point3 list"
where
  "applyOscillationConstraints sub net cell edge_side up_down edge_locations =
     (case oscillation_reference sub cell edge_side up_down of
        Inl e \<Rightarrow> Inl e
      | Inr None \<Rightarrow> Inr edge_locations
      | Inr (Some (mapping_side, reference_idx)) \<Rightarrow>
          (case (if mapping_side = LEFT then cell_to_left_edge_locations net
                 else cell_to_right_edge_locations net) reference_idx of
             None \<Rightarrow> Inl MissingEdge
           | Some edge_above \<Rightarrow>
               if edge_above = [] then Inl AssertionFailed
               else adjustEdgeEnd edge_locations up_down
                      (if up_down = UP then hd edge_above else last edge_above)))"

text \<open>
  \<open>addCellEdges\<close> always passes the mapping of \<open>edge_side\<close>, so the model selects the
  mapping by \<open>edge_side\<close>. \<open>emplace\<close> keeps an entry that is already there;
  \<open>overwrite\<close> is the write through the iterator that \<open>find\<close> returned.
\<close>

definition overwrite :: "('k \<rightharpoonup> 'v) \<Rightarrow> 'k \<Rightarrow> 'v \<Rightarrow> ('k \<rightharpoonup> 'v)" where
  "overwrite m k v = m(k \<mapsto> v)"

definition emplace :: "('k \<rightharpoonup> 'v) \<Rightarrow> 'k \<Rightarrow> 'v \<Rightarrow> ('k \<rightharpoonup> 'v)" where
  "emplace m k v = (case m k of None \<Rightarrow> m(k \<mapsto> v) | Some _ \<Rightarrow> m)"

definition addCellEdge :: "Cross3D \<Rightarrow> nat \<Rightarrow> Direction \<Rightarrow> EdgeNetwork \<Rightarrow> error + EdgeNetwork" where
  "addCellEdge sub cell_idx edge_side net =
     (let cell = cell_data sub ! cell_idx;
          edge0 = (if edge_side = LEFT then from_edge cell else to_edge cell);
          edge = (if \<not> is_expanding cell
                  then \<lparr>seg_from = seg_to edge0, seg_to = seg_from edge0\<rparr> else edge0);
          edge_locations =
            [\<lparr>px = X (seg_from edge), py = Y (seg_from edge), pz = z_min cell\<rparr>,
             \<lparr>px = X (seg_to edge), py = Y (seg_to edge), pz = z_max cell\<rparr>]
      in case applyOscillationConstraints sub net cell edge_side UP edge_locations of
           Inl e \<Rightarrow> Inl e
         | Inr edge_up \<Rightarrow>
             (case applyOscillationConstraints sub net cell edge_side DOWN edge_up of
                Inl e \<Rightarrow> Inl e
              | Inr edge_down \<Rightarrow>
                  Inr (if edge_side = LEFT
                       then net\<lparr>cell_to_left_edge_locations :=
                                  emplace (cell_to_left_edge_locations net) cell_idx edge_down\<rparr>
                       else net\<lparr>cell_to_right_edge_locations :=
                                  emplace (cell_to_right_edge_locations net) cell_idx edge_down\<rparr>)))"

definition addCellEdges :: "Cross3D \<Rightarrow> nat \<Rightarrow> EdgeNetwork \<Rightarrow> error + EdgeNetwork" where
  "addCellEdges sub cell_idx net =
     (if \<not> cell_idx < length (cell_data sub) then Inl OutOfBounds
      else
        let cell = cell_data sub ! cell_idx
        in case getNeighborDepth sub cell LEFT of
             Inl e \<Rightarrow> Inl e
           | Inr left_depth \<Rightarrow>
               (case (if depth cell > left_depth then addCellEdge sub cell_idx LEFT net
                      else Inr net) of
                  Inl e \<Rightarrow> Inl e
                | Inr net1 \<Rightarrow>
                    (case getNeighborDepth sub cell RIGHT of
                       Inl e \<Rightarrow> Inl e
                     | Inr right_depth \<Rightarrow>
                         if depth cell \<ge> right_depth then addCellEdge sub cell_idx RIGHT net1
                         else Inr net1)))"

definition getEdge ::
  "Cross3D \<Rightarrow> EdgeNetwork \<Rightarrow> nat \<Rightarrow> Direction \<Rightarrow> Direction \<Rightarrow> error + Point3 list"
where
  "getEdge sub net cell_idx edge_side up_down =
     (let cell = cell_data sub ! cell_idx;
          neighbors = adjacent_cells cell edge_side
      in if neighbors = [] then Inl OutOfBounds
         else
           let neighbor_idx = to_index (if up_down = UP then last neighbors else hd neighbors)
           in if \<not> neighbor_idx < length (cell_data sub) then Inl OutOfBounds
              else
                let neighbor = cell_data sub ! neighbor_idx
                in if depth neighbor > depth cell
                      \<or> (edge_side = LEFT \<and> depth neighbor = depth cell)
                   then (case (if edge_side = RIGHT then cell_to_left_edge_locations net
                               else cell_to_right_edge_locations net) neighbor_idx of
                           None \<Rightarrow> Inl MissingEdge
                         | Some edge \<Rightarrow> Inr edge)
                   else (case (if edge_side = LEFT then cell_to_left_edge_locations net
                               else cell_to_right_edge_locations net) cell_idx of
                           None \<Rightarrow> Inl MissingEdge
                         | Some edge \<Rightarrow> Inr edge))"

text \<open>
  \<open>LinearAlg2D::intersection\<close> is outside the sources at hand; it is the parameter
  \<open>isect\<close> of the resolver and of the constructor.
\<close>

definition preventZdiscontinuityProblem ::
  "(LineSegment \<Rightarrow> LineSegment \<Rightarrow> Point) \<Rightarrow> Cross3D \<Rightarrow> nat \<Rightarrow> Direction \<Rightarrow> EdgeNetwork
     \<Rightarrow> error + EdgeNetwork"
where
  "preventZdiscontinuityProblem isect sub cell_idx up_down net =
     (if \<not> cell_idx < length (cell_data sub) then Inl OutOfBounds
      else
        let cell = cell_data sub ! cell_idx;
            upstairs_neighbors = adjacent_cells cell up_down
        in if length upstairs_neighbors < 2 then Inr net
           else
             (case getEdge sub net cell_idx LEFT up_down of
                Inl e \<Rightarrow> Inl e
              | Inr from_edge_locations \<Rightarrow>
                  if from_edge_locations = [] then Inl OutOfBounds
                  else
                    (case getEdge sub net cell_idx RIGHT up_down of
                       Inl e \<Rightarrow> Inl e
                     | Inr to_edge_locations \<Rightarrow>
                         if to_edge_locations = [] then Inl OutOfBounds
                         else
                           let from_pt = toPoint (if up_down = UP then last from_edge_locations
                                                  else hd from_edge_locations);
                               to_pt = toPoint (if up_down = UP then last to_edge_locations
                                                else hd to_edge_locations);
                               leftmost_idx = to_index (hd upstairs_neighbors);
                               rightmost_idx = to_index (last upstairs_neighbors)
                           in if \<not> (leftmost_idx < length (cell_data sub)
                                     \<and> rightmost_idx < length (cell_data sub))
                              then Inl OutOfBounds
                              else
                                let leftmost_upstairs_neighbor = cell_data sub ! leftmost_idx;
                                    rightmost_upstairs_neighbor = cell_data sub ! rightmost_idx
                                in if \<not> (depth leftmost_upstairs_neighbor = depth cell + 1)
                                   then Inl AssertionFailed
                                   else if \<not> (depth rightmost_upstairs_neighbor
                                                 = depth leftmost_upstairs_neighbor)
                                   then Inl AssertionFailed
                                   else if \<not> (cell_to_left_edge_locations net rightmost_idx = None)
                                   then Inl AssertionFailed
                                   else
                                     (case cell_to_right_edge_locations net leftmost_idx of
                                        None \<Rightarrow> Inl MissingEdge
                                      | Some trouble_edge_locations \<Rightarrow>
                                          let trouble_edge = to_edge leftmost_upstairs_neighbor;
                                              trouble_edge_middle =
                                                isect trouble_edge
                                                  \<lparr>seg_from = from_pt, seg_to = to_pt\<rparr>;
                                              trouble_edge_middle_3d =
                                                toPoint3 trouble_edge_middle
                                                  (if up_down = UP
                                                   then z_min leftmost_upstairs_neighbor
                                                   else z_max leftmost_upstairs_neighbor)
                                          in (case adjustEdgeEnd trouble_edge_locations
                                                     (opposite up_down) trouble_edge_middle_3d of
                                                Inl e \<Rightarrow> Inl e
                                              | Inr adjusted \<Rightarrow>
                                                  Inr (net\<lparr>cell_to_right_edge_locations :=
                                                             overwrite (cell_to_right_edge_locations net)
                                                               leftmost_idx adjusted\<rparr>))))))"

text \<open>
  The two passes of the constructor (lines 12 to 30): the builder pass over the layers
  from the deepest to the shallowest, then the resolver pass over the layers in order, UP
  before DOWN for every cell.
\<close>

definition builder_pass :: "Cross3D \<Rightarrow> error + EdgeNetwork" where
  "builder_pass sub = foldE (addCellEdges sub) (concat (rev (depth_ordered sub))) empty_network"

definition resolver_step ::
  "(LineSegment \<Rightarrow> LineSegment \<Rightarrow> Point) \<Rightarrow> Cross3D \<Rightarrow> nat \<Rightarrow> EdgeNetwork \<Rightarrow> error + EdgeNetwork"
where
  "resolver_step isect sub cell_idx net =
     (case preventZdiscontinuityProblem isect sub cell_idx UP net of
        Inl e \<Rightarrow> Inl e
      | Inr net1 \<Rightarrow> preventZdiscontinuityProblem isect sub cell_idx DOWN net1)"

definition construction_passes ::
  "(LineSegment \<Rightarrow> LineSegment \<Rightarrow> Point) \<Rightarrow> Cross3D \<Rightarrow> error + EdgeNetwork"
where
  "construction_passes isect sub =
     (case builder_pass sub of
        Inl e \<Rightarrow> Inl e
      | Inr net \<Rightarrow> foldE (resolver_step isect sub) (concat (depth_ordered sub)) net)"

subsection \<open>Debug check of the inclination\<close>

text \<open>
  \<open>debugCheckInclination\<close> computes \<open>xy\<close> and \<open>z\<close> in integers and the angle in
  floating point: \<open>atan(INT2MM(z) / INT2MM(xy))\<close> is rounded to a \<open>float\<close>, divided by
  \<open>M_PI\<close>, multiplied by 180 and rounded to a \<open>float\<close> again before it is compared
  with 35.0. \<open>INT2MM\<close>, \<open>atan\<close> and \<open>M_PI\<close> are not part of the sources at hand, and
  the roundings are not those of real arithmetic: the outcome of the comparison
  \<open>angle_deg > 35.0\<close> is the parameter \<open>angle_deg_above_35 xy z\<close>, a function of the
  two integers the source computes the angle from.
\<close>

fun debugCheckInclination_loop ::
  "(int \<Rightarrow> int \<Rightarrow> bool) \<Rightarrow> Point3 \<Rightarrow> Point3 list \<Rightarrow> error + unit"
where
  "debugCheckInclination_loop angle_deg_above_35 p_below [] = Inr ()"
| "debugCheckInclination_loop angle_deg_above_35 p_below (p_above # rest) =
     (let xy = vSize (toPoint (Point3_minus p_above p_below));
          z = pz p_above - pz p_below
      in if \<not> angle_deg_above_35 xy z then Inl AssertionFailed
         else debugCheckInclination_loop angle_deg_above_35 p_above rest)"

definition debugCheckInclination :: "(int \<Rightarrow> int \<Rightarrow> bool) \<Rightarrow> Point3 list \<Rightarrow> error + unit" where
  "debugCheckInclination angle_deg_above_35 edge =
     (if \<not> length edge > 1 then Inl AssertionFailed
      else debugCheckInclination_loop angle_deg_above_35 (hd edge) (tl edge))"

text \<open>
  \<open>debugCheckInclinations\<close> visits the entries of the left mapping, then those of the
  right mapping. The keys of the mappings are cells of the subdivision (the constructor
  stores under no other key, lemma \<open>constructor_keys\<close>): the model visits the indices of
  \<open>cell_data\<close> and checks the polyline of every index that has an entry.
  Every failure is the same failed assertion, so the order of the visit within a mapping
  cannot be observed.
\<close>

fun debugCheckInclinations_entries ::
  "(int \<Rightarrow> int \<Rightarrow> bool) \<Rightarrow> (nat \<rightharpoonup> Point3 list) \<Rightarrow> nat list \<Rightarrow> error + unit"
where
  "debugCheckInclinations_entries angle_deg_above_35 edges [] = Inr ()"
| "debugCheckInclinations_entries angle_deg_above_35 edges (c # cs) =
     (case edges c of
        None \<Rightarrow> debugCheckInclinations_entries angle_deg_above_35 edges cs
      | Some edge \<Rightarrow>
          (case debugCheckInclination angle_deg_above_35 edge of
             Inl e \<Rightarrow> Inl e
           | Inr u \<Rightarrow> debugCheckInclinations_entries angle_deg_above_35 edges cs))"

definition debugCheckInclinations ::
  "(int \<Rightarrow> int \<Rightarrow> bool) \<Rightarrow> Cross3D \<Rightarrow> EdgeNetwork \<Rightarrow> error + unit"
where
  "debugCheckInclinations angle_deg_above_35 sub net =
     (case debugCheckInclinations_entries angle_deg_above_35 (cell_to_left_edge_locations net)
             [0..<length (cell_data sub)] of
        Inl e \<Rightarrow> Inl e
      | Inr u \<Rightarrow>
          debugCheckInclinations_entries angle_deg_above_35 (cell_to_right_edge_locations net)
            [0..<length (cell_data sub)])"

subsection \<open>The constructor\<close>

text \<open>
  After the two passes, a build that defines \<open>DEBUG\<close> runs \<open>debugCheckInclinations\<close>
  (lines 31 to 33). The argument \<open>debug\<close> is \<open>None\<close> for a build without \<open>DEBUG\<close>, and
  \<open>Some angle_deg_above_35\<close> for a build with it, where \<open>angle_deg_above_35\<close> is the
  floating-point comparison of the check.
\<close>

definition Cross3DPrismEdgeNetwork ::
  "(int \<Rightarrow> int \<Rightarrow> bool) option \<Rightarrow> (LineSegment \<Rightarrow> LineSegment \<Rightarrow> Point) \<Rightarrow> Cross3D
     \<Rightarrow> error + EdgeNetwork"
where
  "Cross3DPrismEdgeNetwork debug isect sub =
     (case construction_passes isect sub of
        Inl e \<Rightarrow> Inl e
      | Inr net \<Rightarrow>
          (case debug of
             None \<Rightarrow> Inr net
           | Some angle_deg_above_35 \<Rightarrow>
               (case debugCheckInclinations angle_deg_above_35 sub net of
                  Inl e \<Rightarrow> Inl e
                | Inr u \<Rightarrow> Inr net)))"

subsection \<open>Edge query\<close>

function getCellEdgeLocation_scan :: "Point3 list \<Rightarrow> int \<Rightarrow> nat \<Rightarrow> error + Point" where
  "getCellEdgeLocation_scan edge_locations h edge_location_idx =
     (if edge_location_idx < length edge_locations
      then
        if \<not> edge_location_idx + 1 < length edge_locations then Inl OutOfBounds
        else if h \<le> pz (edge_locations ! (edge_location_idx + 1))
        then
          let edge_location_below = edge_locations ! edge_location_idx;
              edge_location_above = edge_locations ! (edge_location_idx + 1);
              rest_z = h - pz edge_location_below;
              edge_direction = \<lparr>X = px edge_location_above - px edge_location_below,
                                Y = py edge_location_above - py edge_location_below\<rparr>
          in if \<not> edge_direction \<noteq> \<lparr>X = 0, Y = 0\<rparr> then Inl AssertionFailed
             else if pz edge_location_above - pz edge_location_below = 0 then Inl DivisionByZero
             else Inr (Point_plus \<lparr>X = px edge_location_below, Y = py edge_location_below\<rparr>
                         (Point_div (Point_times edge_direction rest_z)
                            (pz edge_location_above - pz edge_location_below)))
        else getCellEdgeLocation_scan edge_locations h (edge_location_idx + 1)
      else Inl AssertionFailed)"
  by pat_completeness auto
termination
  by (relation "measure (\<lambda>(edge_locations, h, i). length edge_locations - i)") auto

declare getCellEdgeLocation_scan.simps [simp del]

definition getCellEdgeLocation ::
  "Cross3D \<Rightarrow> EdgeNetwork \<Rightarrow> nat \<Rightarrow> nat \<Rightarrow> int \<Rightarrow> error + Point"
where
  "getCellEdgeLocation sub net before after h =
     (if \<not> (before < length (cell_data sub) \<and> after < length (cell_data sub))
      then Inl OutOfBounds
      else
        case (if depth (cell_data sub ! after) > depth (cell_data sub ! before)
              then cell_to_left_edge_locations net after
              else cell_to_right_edge_locations net before) of
          None \<Rightarrow> Inl MissingEdge
        | Some edge_locations \<Rightarrow>
            if \<not> length edge_locations \<ge> 2 then Inl AssertionFailed
            else getCellEdgeLocation_scan edge_locations h 0)"

section \<open>Properties of polylines and of the subdivision\<close>

text \<open>(POLY): at least two points, the height strictly increasing along the polyline.\<close>

fun z_increasing :: "Point3 list \<Rightarrow> bool" where
  "z_increasing (p # q # rest) = (pz p < pz q \<and> z_increasing (q # rest))"
| "z_increasing _ = True"

definition POLY :: "Point3 list \<Rightarrow> bool" where
  "POLY edge \<longleftrightarrow> 2 \<le> length edge \<and> z_increasing edge"

text \<open>The two ownership tests of \<open>addCellEdges\<close>: \<open>>\<close> for LEFT, \<open>>=\<close> for RIGHT.\<close>

definition owns_edge :: "Cross3D \<Rightarrow> nat \<Rightarrow> Direction \<Rightarrow> bool" where
  "owns_edge sub c side =
     (case getNeighborDepth sub (cell_data sub ! c) side of
        Inl e \<Rightarrow> False
      | Inr d \<Rightarrow> if side = LEFT then depth (cell_data sub ! c) > d
                 else depth (cell_data sub ! c) \<ge> d)"

text \<open>
  What the edge network expects of the cells that the depth ordering lists (the leaves
  of the subdivision): layer \<open>k\<close> holds cells of depth \<open>k\<close>; every neighbour of a
  listed cell is a cell that its layer lists; lateral neighbours list each other, and a
  cell with several neighbours on one lateral side is coarser than each of them.
\<close>

definition listed :: "Cross3D \<Rightarrow> nat \<Rightarrow> bool" where
  "listed sub c \<longleftrightarrow>
     c < length (cell_data sub) \<and> 0 \<le> depth (cell_data sub ! c)
     \<and> nat (depth (cell_data sub ! c)) < length (depth_ordered sub)
     \<and> c \<in> set (depth_ordered sub ! nat (depth (cell_data sub ! c)))"

definition layers_by_depth :: "Cross3D \<Rightarrow> bool" where
  "layers_by_depth sub \<longleftrightarrow>
     (\<forall>(k, layer) \<in> set (enumerate 0 (depth_ordered sub)). \<forall>c \<in> set layer.
        c < length (cell_data sub) \<and> depth (cell_data sub ! c) = int k)"

definition neighbours_listed :: "Cross3D \<Rightarrow> bool" where
  "neighbours_listed sub \<longleftrightarrow>
     (\<forall>c \<in> set (concat (depth_ordered sub)). \<forall>d \<in> {LEFT, RIGHT, UP, DOWN}.
        \<forall>l \<in> set (adjacent_cells (cell_data sub ! c) d). listed sub (to_index l))"

definition lateral_consistent :: "Cross3D \<Rightarrow> bool" where
  "lateral_consistent sub \<longleftrightarrow>
     (\<forall>c \<in> set (concat (depth_ordered sub)). \<forall>side \<in> {LEFT, RIGHT}.
        \<forall>l \<in> set (adjacent_cells (cell_data sub ! c) side).
          c \<in> set (map to_index (adjacent_cells (cell_data sub ! to_index l) (opposite side)))
          \<and> (1 < length (adjacent_cells (cell_data sub ! c) side)
               \<longrightarrow> depth (cell_data sub ! c) < depth (cell_data sub ! to_index l)))"

definition wf_view :: "Cross3D \<Rightarrow> bool" where
  "wf_view sub \<longleftrightarrow> layers_by_depth sub \<and> neighbours_listed sub \<and> lateral_consistent sub"


definition deeper_stored :: "Cross3D \<Rightarrow> EdgeNetwork \<Rightarrow> int \<Rightarrow> bool" where
  "deeper_stored sub net d \<longleftrightarrow>
     (\<forall>idx. listed sub idx \<and> d < depth (cell_data sub ! idx) \<longrightarrow>
        (owns_edge sub idx LEFT \<longrightarrow> cell_to_left_edge_locations net idx \<noteq> None)
        \<and> (owns_edge sub idx RIGHT \<longrightarrow> cell_to_right_edge_locations net idx \<noteq> None))"

text \<open>
  The bend as the specification words it: \<open>bend = t + dir * (m / 2) / n\<close> with \<open>n\<close> the
  3D length of the adjacent segment. It is stated only to be compared with
  \<open>adjustEdgeEnd\<close>.
\<close>

definition spec_bend :: "Point3 \<Rightarrow> Point3 \<Rightarrow> Point3 \<Rightarrow> Point3" where
  "spec_bend t a destination =
     (let m = vSize (Point_minus (toPoint destination) (toPoint t));
          dir = Point3_minus a t;
          n = int (isqrt (nat (Point3_vSize2 dir)))
      in Point3_plus t (Point3_div (Point3_times dir (tdiv m 2)) n))"

text \<open>Reading the result of the constructor.\<close>

definition left_edge_of :: "error + EdgeNetwork \<Rightarrow> nat \<Rightarrow> Point3 list option" where
  "left_edge_of r c = (case r of Inl e \<Rightarrow> None | Inr net \<Rightarrow> cell_to_left_edge_locations net c)"

definition right_edge_of :: "error + EdgeNetwork \<Rightarrow> nat \<Rightarrow> Point3 list option" where
  "right_edge_of r c = (case r of Inl e \<Rightarrow> None | Inr net \<Rightarrow> cell_to_right_edge_locations net c)"

text \<open>An edge query on the network that the constructor has returned.\<close>

definition query_after ::
  "error + EdgeNetwork \<Rightarrow> Cross3D \<Rightarrow> nat \<Rightarrow> nat \<Rightarrow> int \<Rightarrow> error + Point"
where
  "query_after r sub before after h =
     (case r of Inl e \<Rightarrow> Inl e | Inr net \<Rightarrow> getCellEdgeLocation sub net before after h)"

section \<open>Example subdivisions\<close>

fun links :: "nat list \<Rightarrow> nat list \<Rightarrow> nat list \<Rightarrow> nat list \<Rightarrow> Direction \<Rightarrow> Link list" where
  "links l r u d LEFT = map (\<lambda>i. \<lparr>to_index = i\<rparr>) l"
| "links l r u d RIGHT = map (\<lambda>i. \<lparr>to_index = i\<rparr>) r"
| "links l r u d UP = map (\<lambda>i. \<lparr>to_index = i\<rparr>) u"
| "links l r u d DOWN = map (\<lambda>i. \<lparr>to_index = i\<rparr>) d"

definition segment :: "int \<Rightarrow> int \<Rightarrow> int \<Rightarrow> int \<Rightarrow> LineSegment" where
  "segment x0 y0 x1 y1 = \<lparr>seg_from = \<lparr>X = x0, Y = y0\<rparr>, seg_to = \<lparr>X = x1, Y = y1\<rparr>\<rparr>"

definition midpoint_isect :: "LineSegment \<Rightarrow> LineSegment \<Rightarrow> Point" where
  "midpoint_isect e l =
     \<lparr>X = tdiv (X (seg_from e) + X (seg_to e)) 2, Y = tdiv (Y (seg_from e) + Y (seg_to e)) 2\<rparr>"

text \<open>
  A coarse cell 1 (depth 0) between its lateral neighbours 0 and 2, under the two finer
  cells 4 and 5 (depth 1); 3 and 6 are the finer cells above 0 and 2.
\<close>

definition resolver_example :: Cross3D where
  "resolver_example =
     \<lparr>cell_data =
        [\<lparr>from_edge = segment (-1000) 0 (-1000) 1000, to_edge = segment 0 0 0 1000,
          z_min = 0, z_max = 1000, is_expanding = True, depth = 0,
          adjacent_cells = links [] [1] [3] []\<rparr>,
         \<lparr>from_edge = segment 0 0 0 1000, to_edge = segment 2000 0 2000 1000,
          z_min = 0, z_max = 1000, is_expanding = True, depth = 0,
          adjacent_cells = links [0] [2] [4, 5] []\<rparr>,
         \<lparr>from_edge = segment 2000 0 2000 1000, to_edge = segment 3000 0 3000 1000,
          z_min = 0, z_max = 1000, is_expanding = True, depth = 0,
          adjacent_cells = links [1] [] [6] []\<rparr>,
         \<lparr>from_edge = segment (-1000) 1000 (-1000) 0, to_edge = segment 0 1000 0 500,
          z_min = 1000, z_max = 1500, is_expanding = True, depth = 1,
          adjacent_cells = links [] [4] [] [0]\<rparr>,
         \<lparr>from_edge = segment 0 1000 0 500, to_edge = segment 1000 0 1000 1000,
          z_min = 1000, z_max = 1500, is_expanding = True, depth = 1,
          adjacent_cells = links [3] [5] [] [1]\<rparr>,
         \<lparr>from_edge = segment 1000 0 1000 1000, to_edge = segment 2000 1000 2000 500,
          z_min = 1000, z_max = 1500, is_expanding = True, depth = 1,
          adjacent_cells = links [4] [6] [] [1]\<rparr>,
         \<lparr>from_edge = segment 2000 1000 2000 500, to_edge = segment 3000 1000 3000 500,
          z_min = 1000, z_max = 1500, is_expanding = True, depth = 1,
          adjacent_cells = links [5] [] [] [2]\<rparr>],
      depth_ordered = [[0, 1, 2], [3, 4, 5, 6]]\<rparr>"

text \<open>The network of \<open>resolver_example\<close> after the builder pass.\<close>

definition resolver_example_network :: EdgeNetwork where
  "resolver_example_network =
     \<lparr>cell_to_left_edge_locations = Map.empty,
      cell_to_right_edge_locations =
        [3 \<mapsto> [\<lparr>px = 0, py = 1000, pz = 1000\<rparr>, \<lparr>px = 0, py = 500, pz = 1500\<rparr>],
         4 \<mapsto> [\<lparr>px = 1000, py = 0, pz = 1000\<rparr>, \<lparr>px = 1000, py = 1000, pz = 1500\<rparr>],
         5 \<mapsto> [\<lparr>px = 2000, py = 1000, pz = 1000\<rparr>, \<lparr>px = 2000, py = 500, pz = 1500\<rparr>],
         0 \<mapsto> [\<lparr>px = 0, py = 0, pz = 0\<rparr>, \<lparr>px = 0, py = 1000, pz = 1000\<rparr>],
         1 \<mapsto> [\<lparr>px = 2000, py = 0, pz = 0\<rparr>, \<lparr>px = 2000, py = 1000, pz = 1000\<rparr>]]\<rparr>"

text \<open>
  A triangular prism over the triangle (0, 0), (2000, 0), (1000, 1000), from height 0 to
  height 4000 (cell 0), split into four prisms of depth 1: the triangle is halved by the
  segment from (1000, 0) to (1000, 1000), the height at 2000. Cells 1 and 2 are the left
  and the right half below, cells 3 and 4 the left and the right half above; cell 3 is
  split again, at height 3000, into cell 5 below and cell 6 above (depth 2). The leaves
  are the cells 1, 2, 4, 5 and 6. The right edge of cell 1 runs from (1000, 0) at its
  bottom to (1000, 1000) at its top, the right edge of cell 5 starts at (1000, 0).
\<close>

definition column_example :: Cross3D where
  "column_example =
     \<lparr>cell_data =
        [\<lparr>from_edge = segment 0 0 1000 1000, to_edge = segment 2000 0 1000 1000,
          z_min = 0, z_max = 4000, is_expanding = True, depth = 0,
          adjacent_cells = links [] [] [] []\<rparr>,
         \<lparr>from_edge = segment 0 0 1000 1000, to_edge = segment 1000 0 1000 1000,
          z_min = 0, z_max = 2000, is_expanding = True, depth = 1,
          adjacent_cells = links [] [2] [5] []\<rparr>,
         \<lparr>from_edge = segment 1000 0 1000 1000, to_edge = segment 2000 0 1000 1000,
          z_min = 0, z_max = 2000, is_expanding = True, depth = 1,
          adjacent_cells = links [1] [] [4] []\<rparr>,
         \<lparr>from_edge = segment 0 0 1000 1000, to_edge = segment 1000 0 1000 1000,
          z_min = 2000, z_max = 4000, is_expanding = True, depth = 1,
          adjacent_cells = links [] [] [] []\<rparr>,
         \<lparr>from_edge = segment 1000 0 1000 1000, to_edge = segment 2000 0 1000 1000,
          z_min = 2000, z_max = 4000, is_expanding = True, depth = 1,
          adjacent_cells = links [5, 6] [] [] [2]\<rparr>,
         \<lparr>from_edge = segment 0 0 1000 1000, to_edge = segment 1000 0 1000 1000,
          z_min = 2000, z_max = 3000, is_expanding = True, depth = 2,
          adjacent_cells = links [] [4] [6] [1]\<rparr>,
         \<lparr>from_edge = segment 0 0 1000 1000, to_edge = segment 1000 0 1000 1000,
          z_min = 3000, z_max = 4000, is_expanding = False, depth = 2,
          adjacent_cells = links [] [4] [] [5]\<rparr>],
      depth_ordered = [[], [1, 2, 4], [5, 6]]\<rparr>"

text \<open>
  A comparison to run the inclination check of the examples with: the rise is positive
  and more than 7/10 of the horizontal distance (the tangent of 35 degrees is 0.7002).
\<close>

definition rise_above_7_10 :: "int \<Rightarrow> int \<Rightarrow> bool" where
  "rise_above_7_10 xy z \<longleftrightarrow> 0 < z \<and> 7 * xy < 10 * z"

section \<open>Evaluation and auxiliary facts\<close>

lemma isqrt_0: "isqrt 0 = 0"
  by (simp add: isqrt.simps)

lemma isqrt_1: "isqrt 1 = 1" "isqrt (Suc 0) = Suc 0"
  by (simp_all add: isqrt.simps)

text \<open>\<open>isqrt\<close> is the integer part of the square root.\<close>

lemma isqrt_bounds: "isqrt n * isqrt n \<le> n \<and> n < (isqrt n + 1) * (isqrt n + 1)"
proof (induction n rule: isqrt.induct)
  case (1 n)
  show ?case
  proof (cases "n < 2")
    case True
    then have "n = 0 \<or> n = 1" by auto
    then show ?thesis by (auto simp: isqrt_0 isqrt_1)
  next
    case False
    define r where "r = isqrt (n div 4)"
    from 1 [OF False] have lo: "r * r \<le> n div 4" and hi: "n div 4 < (r + 1) * (r + 1)"
      by (simp_all add: r_def)
    have eq: "isqrt n = (if (2 * r + 1) * (2 * r + 1) \<le> n then 2 * r + 1 else 2 * r)"
      using False by (subst isqrt.simps) (simp add: Let_def r_def)
    from lo have "4 * (r * r) \<le> 4 * (n div 4)" by simp
    also have "4 * (n div 4) \<le> n" by simp
    finally have lo2: "(2 * r) * (2 * r) \<le> n" by (simp add: algebra_simps)
    from hi have "n div 4 + 1 \<le> (r + 1) * (r + 1)" by simp
    then have "4 * (n div 4) + 4 \<le> 4 * ((r + 1) * (r + 1))" by simp
    moreover have "n < 4 * (n div 4) + 4"
      by presburger
    ultimately have hi2: "n < (2 * r + 2) * (2 * r + 2)" by (simp add: algebra_simps)
    show ?thesis
    proof (cases "(2 * r + 1) * (2 * r + 1) \<le> n")
      case True
      with eq hi2 show ?thesis by (simp add: algebra_simps)
    next
      case False
      with eq lo2 show ?thesis by (simp add: algebra_simps)
    qed
  qed
qed

lemmas isqrt_numeral = isqrt.simps [of "numeral k"] for k

lemmas isqrt_eval = isqrt_0 isqrt_1 isqrt_numeral

lemmas geom_defs = toPoint_def toPoint3_def Point_plus_def Point_minus_def Point_times_def
  Point_div_def vSize2_def vSize_def Point3_plus_def Point3_minus_def Point3_times_def
  Point3_div_def Point3_vSize2_def tdiv_def

lemmas run_defs = Cross3DPrismEdgeNetwork_def construction_passes_def debugCheckInclinations_def
  debugCheckInclination_def builder_pass_def resolver_step_def
  preventZdiscontinuityProblem_def getEdge_def addCellEdges_def addCellEdge_def
  applyOscillationConstraints_def oscillation_reference_def adjustEdgeEnd_def
  getNeighborDepth_def emplace_def overwrite_def insert_at_def empty_network_def char_max_def
  left_edge_of_def right_edge_of_def segment_def midpoint_isect_def Let_def isqrt_eval

lemma foldE_append:
  "foldE f (xs @ ys) s = (case foldE f xs s of Inl e \<Rightarrow> Inl e | Inr s' \<Rightarrow> foldE f ys s')"
  by (induction xs arbitrary: s) (auto split: sum.splits)


lemma dom_emplace: "dom (emplace m k v) = insert k (dom m)"
  by (auto simp: emplace_def split: option.splits)

lemma addCellEdge_result:
  assumes "addCellEdge sub c side net = Inr net'"
  shows "\<exists>edge. net' = (if side = LEFT
           then net\<lparr>cell_to_left_edge_locations := emplace (cell_to_left_edge_locations net) c edge\<rparr>
           else net\<lparr>cell_to_right_edge_locations := emplace (cell_to_right_edge_locations net) c edge\<rparr>)"
  using assms
  unfolding addCellEdge_def Let_def
  by (auto split: sum.splits if_splits)

lemma addCellEdge_dom:
  assumes "addCellEdge sub c side net = Inr net'"
  shows "dom (cell_to_left_edge_locations net') =
           (if side = LEFT then insert c (dom (cell_to_left_edge_locations net))
            else dom (cell_to_left_edge_locations net))"
    and "dom (cell_to_right_edge_locations net') =
           (if side = LEFT then dom (cell_to_right_edge_locations net)
            else insert c (dom (cell_to_right_edge_locations net)))"
proof -
  from addCellEdge_result [OF assms] obtain edge where
    "net' = (if side = LEFT
           then net\<lparr>cell_to_left_edge_locations := emplace (cell_to_left_edge_locations net) c edge\<rparr>
           else net\<lparr>cell_to_right_edge_locations := emplace (cell_to_right_edge_locations net) c edge\<rparr>)"
    by blast
  then show "dom (cell_to_left_edge_locations net') =
           (if side = LEFT then insert c (dom (cell_to_left_edge_locations net))
            else dom (cell_to_left_edge_locations net))"
    and "dom (cell_to_right_edge_locations net') =
           (if side = LEFT then dom (cell_to_right_edge_locations net)
            else insert c (dom (cell_to_right_edge_locations net)))"
    by (simp_all add: dom_emplace)
qed

lemma addCellEdges_dom:
  assumes "addCellEdges sub c net = Inr net'"
  shows "dom (cell_to_left_edge_locations net') =
           dom (cell_to_left_edge_locations net) \<union> (if owns_edge sub c LEFT then {c} else {})"
    and "dom (cell_to_right_edge_locations net') =
           dom (cell_to_right_edge_locations net) \<union> (if owns_edge sub c RIGHT then {c} else {})"
proof -
  let ?cell = "cell_data sub ! c"
  from assms obtain dl net1 dr where
    dl: "getNeighborDepth sub ?cell LEFT = Inr dl" and
    s1: "(if depth ?cell > dl then addCellEdge sub c LEFT net else Inr net) = Inr net1" and
    dr: "getNeighborDepth sub ?cell RIGHT = Inr dr" and
    s2: "(if depth ?cell \<ge> dr then addCellEdge sub c RIGHT net1 else Inr net1) = Inr net'"
    by (auto simp: addCellEdges_def Let_def split: sum.splits if_splits)
  have ol: "owns_edge sub c LEFT \<longleftrightarrow> depth ?cell > dl"
    and or: "owns_edge sub c RIGHT \<longleftrightarrow> depth ?cell \<ge> dr"
    using dl dr by (simp_all add: owns_edge_def)
  have l1: "dom (cell_to_left_edge_locations net1) =
              dom (cell_to_left_edge_locations net) \<union> (if depth ?cell > dl then {c} else {})"
    and r1: "dom (cell_to_right_edge_locations net1) = dom (cell_to_right_edge_locations net)"
    using s1 by (simp_all add: addCellEdge_dom split: if_splits)
  have l2: "dom (cell_to_left_edge_locations net') = dom (cell_to_left_edge_locations net1)"
    and r2: "dom (cell_to_right_edge_locations net') =
              dom (cell_to_right_edge_locations net1) \<union> (if depth ?cell \<ge> dr then {c} else {})"
    using s2 by (simp_all add: addCellEdge_dom split: if_splits)
  show "dom (cell_to_left_edge_locations net') =
           dom (cell_to_left_edge_locations net) \<union> (if owns_edge sub c LEFT then {c} else {})"
    by (simp only: l2 l1 ol)
  show "dom (cell_to_right_edge_locations net') =
           dom (cell_to_right_edge_locations net) \<union> (if owns_edge sub c RIGHT then {c} else {})"
    by (simp only: r2 r1 or)
qed

lemma builder_fold_dom:
  assumes "foldE (addCellEdges sub) cs net = Inr net'"
  shows "dom (cell_to_left_edge_locations net') =
           dom (cell_to_left_edge_locations net) \<union> {c \<in> set cs. owns_edge sub c LEFT}
         \<and> dom (cell_to_right_edge_locations net') =
           dom (cell_to_right_edge_locations net) \<union> {c \<in> set cs. owns_edge sub c RIGHT}"
  using assms
proof (induction cs arbitrary: net)
  case Nil
  then show ?case by simp
next
  case (Cons c cs)
  from Cons.prems obtain net1 where
    step: "addCellEdges sub c net = Inr net1" and rest: "foldE (addCellEdges sub) cs net1 = Inr net'"
    by (auto split: sum.splits)
  show ?case
    using Cons.IH [OF rest] addCellEdges_dom [OF step] by auto
qed

lemma preventZdiscontinuityProblem_dom:
  assumes "preventZdiscontinuityProblem isect sub c up_down net = Inr net'"
  shows "cell_to_left_edge_locations net' = cell_to_left_edge_locations net
         \<and> dom (cell_to_right_edge_locations net') = dom (cell_to_right_edge_locations net)"
  using assms
  by (auto simp: preventZdiscontinuityProblem_def Let_def overwrite_def
           split: sum.splits if_splits option.splits)

lemma resolver_step_dom:
  assumes "resolver_step isect sub c net = Inr net'"
  shows "cell_to_left_edge_locations net' = cell_to_left_edge_locations net
         \<and> dom (cell_to_right_edge_locations net') = dom (cell_to_right_edge_locations net)"
proof -
  from assms obtain net1 where
    u: "preventZdiscontinuityProblem isect sub c UP net = Inr net1" and
    d: "preventZdiscontinuityProblem isect sub c DOWN net1 = Inr net'"
    by (auto simp: resolver_step_def split: sum.splits)
  from preventZdiscontinuityProblem_dom [OF u] preventZdiscontinuityProblem_dom [OF d]
  show ?thesis by simp
qed

lemma resolver_fold_dom:
  assumes "foldE (resolver_step isect sub) cs net = Inr net'"
  shows "cell_to_left_edge_locations net' = cell_to_left_edge_locations net
         \<and> dom (cell_to_right_edge_locations net') = dom (cell_to_right_edge_locations net)"
  using assms
proof (induction cs arbitrary: net)
  case Nil
  then show ?case by simp
next
  case (Cons c cs)
  from Cons.prems obtain net1 where
    step: "resolver_step isect sub c net = Inr net1" and
    rest: "foldE (resolver_step isect sub) cs net1 = Inr net'"
    by (auto split: sum.splits)
  from Cons.IH [OF rest] resolver_step_dom [OF step]
  show ?case by simp
qed

lemma constructor_dom:
  assumes "construction_passes isect sub = Inr net"
  shows "dom (cell_to_left_edge_locations net) = {c \<in> set (concat (depth_ordered sub)). owns_edge sub c LEFT}"
    and "dom (cell_to_right_edge_locations net) = {c \<in> set (concat (depth_ordered sub)). owns_edge sub c RIGHT}"
proof -
  from assms obtain net0 where
    b: "builder_pass sub = Inr net0"
    and r: "foldE (resolver_step isect sub) (concat (depth_ordered sub)) net0 = Inr net"
    by (auto simp: construction_passes_def split: sum.splits)
  have "set (concat (rev (depth_ordered sub))) = set (concat (depth_ordered sub))"
    by auto
  with builder_fold_dom [OF b [unfolded builder_pass_def]]
  have "dom (cell_to_left_edge_locations net0) = {c \<in> set (concat (depth_ordered sub)). owns_edge sub c LEFT}
    \<and> dom (cell_to_right_edge_locations net0) = {c \<in> set (concat (depth_ordered sub)). owns_edge sub c RIGHT}"
    by (simp add: empty_network_def)
  with resolver_fold_dom [OF r]
  show "dom (cell_to_left_edge_locations net) = {c \<in> set (concat (depth_ordered sub)). owns_edge sub c LEFT}"
    and "dom (cell_to_right_edge_locations net) = {c \<in> set (concat (depth_ordered sub)). owns_edge sub c RIGHT}"
    by simp_all
qed

lemma builder_processed_ok:
  assumes "foldE (addCellEdges sub) cs net = Inr net'" and "c \<in> set cs"
  shows "c < length (cell_data sub)
       \<and> (\<exists>d. getNeighborDepth sub (cell_data sub ! c) LEFT = Inr d)
       \<and> (\<exists>d. getNeighborDepth sub (cell_data sub ! c) RIGHT = Inr d)"
  using assms
proof (induction cs arbitrary: net)
  case Nil
  then show ?case by simp
next
  case (Cons a cs)
  from Cons.prems(1) obtain net1 where
    step: "addCellEdges sub a net = Inr net1" and rest: "foldE (addCellEdges sub) cs net1 = Inr net'"
    by (auto split: sum.splits)
  show ?case
  proof (cases "c = a")
    case True
    with step show ?thesis
      by (auto simp: addCellEdges_def Let_def split: sum.splits if_splits)
  next
    case False
    with Cons.prems(2) have "c \<in> set cs" by simp
    from Cons.IH [OF rest this] show ?thesis .
  qed
qed

lemma constructor_edges:
  assumes "\<not> isl (construction_passes isect sub)"
    and "c \<in> set (concat (depth_ordered sub))"
  shows "\<exists>dl dr.
           getNeighborDepth sub (cell_data sub ! c) LEFT = Inr dl
         \<and> getNeighborDepth sub (cell_data sub ! c) RIGHT = Inr dr
         \<and> (left_edge_of (construction_passes isect sub) c \<noteq> None
              \<longleftrightarrow> depth (cell_data sub ! c) > dl)
         \<and> (right_edge_of (construction_passes isect sub) c \<noteq> None
              \<longleftrightarrow> depth (cell_data sub ! c) \<ge> dr)"
proof -
  from assms(1) obtain net where net: "construction_passes isect sub = Inr net"
    by (cases "construction_passes isect sub") auto
  then obtain net0 where b: "builder_pass sub = Inr net0"
    by (auto simp: construction_passes_def split: sum.splits)
  from assms(2) have c': "c \<in> set (concat (rev (depth_ordered sub)))" by auto
  from builder_processed_ok [OF b [unfolded builder_pass_def] c']
  obtain dl dr where
    dl: "getNeighborDepth sub (cell_data sub ! c) LEFT = Inr dl" and
    dr: "getNeighborDepth sub (cell_data sub ! c) RIGHT = Inr dr"
    by auto
  have "c \<in> dom (cell_to_left_edge_locations net) \<longleftrightarrow> depth (cell_data sub ! c) > dl"
    using constructor_dom(1) [OF net] assms(2) dl by (simp add: owns_edge_def)
  then have L: "left_edge_of (construction_passes isect sub) c \<noteq> None
                  \<longleftrightarrow> depth (cell_data sub ! c) > dl"
    by (simp add: left_edge_of_def net domIff)
  have "c \<in> dom (cell_to_right_edge_locations net) \<longleftrightarrow> depth (cell_data sub ! c) \<ge> dr"
    using constructor_dom(2) [OF net] assms(2) dr by (simp add: owns_edge_def)
  then have R: "right_edge_of (construction_passes isect sub) c \<noteq> None
                  \<longleftrightarrow> depth (cell_data sub ! c) \<ge> dr"
    by (simp add: right_edge_of_def net domIff)
  from dl dr L R show ?thesis by blast
qed

lemma getNeighborDepth_front:
  assumes "getNeighborDepth sub cell side = Inr d" and "adjacent_cells cell side = l # ls"
  shows "d = depth (cell_data sub ! to_index l)"
  using assms by (auto simp: getNeighborDepth_def Let_def split: if_splits)

lemma getNeighborDepth_none:
  assumes "adjacent_cells cell side = []"
  shows "getNeighborDepth sub cell side = Inr 127"
  using assms by (simp add: getNeighborDepth_def char_max_def)

subsection \<open>Adjust Edge End\<close>

lemma adjustEdgeEnd_UP:
  assumes "t \<noteq> destination" and "vSize (toPoint (Point3_minus a t)) \<noteq> 0"
  shows "adjustEdgeEnd (pre @ [a, t]) UP destination =
     (let m = vSize (Point_minus (toPoint destination) (toPoint t));
          n = vSize (toPoint (Point3_minus a t));
          bend = Point3_plus t (Point3_div (Point3_div (Point3_times (Point3_minus a t) m) 2) n)
      in if Point3_vSize2 (Point3_minus bend a) > 100
            \<and> Point3_vSize2 (Point3_minus bend destination) > 100
         then Inr (pre @ [a, bend, destination]) else Inr (pre @ [a, destination]))"
  using assms
  by (simp add: adjustEdgeEnd_def Let_def insert_at_def nth_append list_update_append)

lemma adjustEdgeEnd_DOWN:
  assumes "t \<noteq> destination" and "vSize (toPoint (Point3_minus a t)) \<noteq> 0"
  shows "adjustEdgeEnd (t # a # post) DOWN destination =
     (let m = vSize (Point_minus (toPoint destination) (toPoint t));
          n = vSize (toPoint (Point3_minus a t));
          bend = Point3_plus t (Point3_div (Point3_div (Point3_times (Point3_minus a t) m) 2) n)
      in if Point3_vSize2 (Point3_minus bend a) > 100
            \<and> Point3_vSize2 (Point3_minus bend destination) > 100
         then Inr (destination # bend # a # post) else Inr (destination # a # post))"
  using assms
  by (simp add: adjustEdgeEnd_def Let_def insert_at_def)



lemma if_branches_differ: "a \<noteq> v \<Longrightarrow> b \<noteq> v \<Longrightarrow> (if c then a else b) \<noteq> v"
  by simp

lemma adjustEdgeEnd_not_missing: "adjustEdgeEnd edge up_down destination \<noteq> Inl MissingEdge"
  unfolding adjustEdgeEnd_def Let_def
  by (intro if_branches_differ) simp_all

subsection \<open>Polylines\<close>

lemma z_increasing_sorted_wrt:
  "z_increasing edge \<longleftrightarrow> sorted_wrt (\<lambda>p q. pz p < pz q) edge"
proof (induction edge rule: z_increasing.induct)
  case (1 p q rest)
  have "(\<forall>x \<in> set (q # rest). pz p < pz x) \<longleftrightarrow> pz p < pz q"
    if "sorted_wrt (\<lambda>p q. pz p < pz q) (q # rest)"
    using that by (auto intro: less_trans)
  with 1 show ?case by auto
qed simp_all

lemma z_increasing_nth:
  assumes "z_increasing edge" and "i < j" and "j < length edge"
  shows "pz (edge ! i) < pz (edge ! j)"
  using assms sorted_wrt_nth_less [of "\<lambda>p q. pz p < pz q" edge i j]
  by (simp add: z_increasing_sorted_wrt)

lemma z_increasing_snoc2:
  assumes "z_increasing (pre @ [a, t])"
  shows "z_increasing (pre @ [a, d]) \<longleftrightarrow> pz a < pz d"
    and "z_increasing (pre @ [a, b, d]) \<longleftrightarrow> pz a < pz b \<and> pz b < pz d"
  using assms
  by (auto simp: z_increasing_sorted_wrt sorted_wrt_append intro: less_trans)

lemma z_increasing_cons2:
  assumes "z_increasing (t # a # post)"
  shows "z_increasing (d # a # post) \<longleftrightarrow> pz d < pz a"
    and "z_increasing (d # b # a # post) \<longleftrightarrow> pz d < pz b \<and> pz b < pz a"
  using assms
  by auto

lemma tdiv_nonneg: "0 \<le> a \<Longrightarrow> 0 < b \<Longrightarrow> tdiv a b = a div b"
  by (cases "a = 0") (simp_all add: tdiv_def)

lemma tdiv_minus: "tdiv (- a) b = - tdiv a b"
  by (simp add: tdiv_def sgn_minus)

lemma int_div_less:
  fixes x D n :: int
  assumes "x < D * n" and "0 < n"
  shows "x div n < D"
proof -
  have "n * (x div n) + x mod n = x" by simp
  moreover have "0 \<le> x mod n" using assms(2) by simp
  ultimately have "n * (x div n) \<le> x" by linarith
  with assms(1) have "n * (x div n) < n * D" by (simp add: mult.commute)
  with assms(2) show ?thesis by (simp add: mult_less_cancel_left_pos)
qed

lemma bend_rise:
  fixes D m n :: int
  assumes "0 < D" and "0 \<le> m" and "m < 2 * n" and "2 * n \<le> D * m"
  shows "0 < tdiv (tdiv (D * m) 2) n" and "tdiv (tdiv (D * m) 2) n < D"
proof -
  from assms(2,3) have n: "0 < n" by linarith
  from assms(1,2) have dm: "0 \<le> D * m" by simp
  have h: "tdiv (D * m) 2 = D * m div 2" using dm by (simp add: tdiv_nonneg)
  have h0: "0 \<le> D * m div 2" using dm by simp
  have q: "tdiv (tdiv (D * m) 2) n = (D * m div 2) div n"
    using h0 n by (simp add: h tdiv_nonneg)
  have "n \<le> D * m div 2" using assms(4) by linarith
  then have "0 < (D * m div 2) div n"
    using n by (simp add: pos_imp_zdiv_pos_iff)
  then show "0 < tdiv (tdiv (D * m) 2) n" by (simp add: q)
  have "D * m < D * (2 * n)" using assms(1,3) by simp
  then have "D * m div 2 < D * n" by linarith
  then have "(D * m div 2) div n < D"
    using n by (rule int_div_less)
  then show "tdiv (tdiv (D * m) 2) n < D" by (simp add: q)
qed

lemma bend_height:
  "pz (Point3_plus t (Point3_div (Point3_div (Point3_times (Point3_minus a t) m) 2) n))
     = pz t + tdiv (tdiv ((pz a - pz t) * m) 2) n"
  by (simp add: Point3_plus_def Point3_div_def Point3_times_def Point3_minus_def)

lemma vSize_nonneg: "0 \<le> vSize p"
  by (simp add: vSize_def)

text \<open>
  A move of an endpoint \<open>t\<close> to a destination at the same height keeps the heights
  strictly increasing when the move length \<open>m\<close> is below twice the horizontal length
  \<open>n\<close> of the adjacent segment, and the rise of that segment times \<open>m\<close> is at least
  \<open>2 * n\<close>: then the height of the bend, computed with two truncating divisions, lies
  strictly between the heights of the neighbour \<open>a\<close> and of the destination.
\<close>

lemma adjustEdgeEnd_keeps_z_increasing:
  fixes a t destination :: Point3
  defines "m \<equiv> vSize (Point_minus (toPoint destination) (toPoint t))"
    and "n \<equiv> vSize (toPoint (Point3_minus a t))"
  assumes ne: "t \<noteq> destination" and level: "pz destination = pz t"
    and short: "m < 2 * n" and rise: "2 * n \<le> \<bar>pz a - pz t\<bar> * m"
  shows "z_increasing (pre @ [a, t]) \<Longrightarrow>
           \<exists>moved. adjustEdgeEnd (pre @ [a, t]) UP destination = Inr moved \<and> z_increasing moved"
    and "z_increasing (t # a # post) \<Longrightarrow>
           \<exists>moved. adjustEdgeEnd (t # a # post) DOWN destination = Inr moved \<and> z_increasing moved"
proof -
  have m0: "0 \<le> m" by (simp add: m_def vSize_nonneg)
  with short have n0: "vSize (toPoint (Point3_minus a t)) \<noteq> 0" by (simp add: n_def)
  let ?bend = "Point3_plus t (Point3_div (Point3_div (Point3_times (Point3_minus a t) m) 2) n)"
  {
    assume inc: "z_increasing (pre @ [a, t])"
    then have at: "pz a < pz t"
      by (simp add: z_increasing_sorted_wrt sorted_wrt_append)
    define D where "D = pz t - pz a"
    have D: "0 < D" "(pz a - pz t) * m = - (D * m)" "\<bar>pz a - pz t\<bar> = D"
      using at by (simp_all add: D_def algebra_simps)
    from bend_rise [OF D(1) m0 short] rise D(3)
    have q: "0 < tdiv (tdiv (D * m) 2) n" "tdiv (tdiv (D * m) 2) n < D" by simp_all
    have bz: "pz ?bend = pz t - tdiv (tdiv (D * m) 2) n"
      by (simp add: bend_height D(2) tdiv_minus)
    from q bz have b: "pz a < pz ?bend" "pz ?bend < pz destination"
      by (simp_all add: level D_def)
    from at have d: "pz a < pz destination" by (simp add: level)
    show "\<exists>moved. adjustEdgeEnd (pre @ [a, t]) UP destination = Inr moved \<and> z_increasing moved"
      unfolding adjustEdgeEnd_UP [OF ne n0] Let_def
      using z_increasing_snoc2 [OF inc] b d
      by (simp add: m_def n_def)
  }
  {
    assume inc: "z_increasing (t # a # post)"
    then have at: "pz t < pz a" by simp
    define D where "D = pz a - pz t"
    have D: "0 < D" "(pz a - pz t) * m = D * m" "\<bar>pz a - pz t\<bar> = D"
      using at by (simp_all add: D_def)
    from bend_rise [OF D(1) m0 short] rise D(3)
    have q: "0 < tdiv (tdiv (D * m) 2) n" "tdiv (tdiv (D * m) 2) n < D" by simp_all
    have bz: "pz ?bend = pz t + tdiv (tdiv (D * m) 2) n"
      by (simp add: bend_height D(2))
    from q bz have b: "pz destination < pz ?bend" "pz ?bend < pz a"
      by (simp_all add: level D_def)
    from at have d: "pz destination < pz a" by (simp add: level)
    show "\<exists>moved. adjustEdgeEnd (t # a # post) DOWN destination = Inr moved \<and> z_increasing moved"
      unfolding adjustEdgeEnd_DOWN [OF ne n0] Let_def
      using inc b d
      by (simp add: m_def n_def)
  }
qed







subsection \<open>The scan of the edge query\<close>

lemma scan_from:
  assumes "z_increasing edge" and "k + 1 < length edge" and "h \<le> pz (last edge)"
  shows "\<exists>i. k \<le> i \<and> i + 1 < length edge \<and> h \<le> pz (edge ! (i + 1))
           \<and> (\<forall>j. k \<le> j \<and> j < i \<longrightarrow> pz (edge ! (j + 1)) < h)
           \<and> getCellEdgeLocation_scan edge h k =
               (if px (edge ! i) = px (edge ! (i + 1)) \<and> py (edge ! i) = py (edge ! (i + 1))
                then Inl AssertionFailed
                else Inr (Point_plus \<lparr>X = px (edge ! i), Y = py (edge ! i)\<rparr>
                           (Point_div
                              (Point_times \<lparr>X = px (edge ! (i + 1)) - px (edge ! i),
                                            Y = py (edge ! (i + 1)) - py (edge ! i)\<rparr>
                                 (h - pz (edge ! i)))
                              (pz (edge ! (i + 1)) - pz (edge ! i)))))"
  using assms(2)
proof (induction "length edge - k" arbitrary: k)
  case 0
  then show ?case by simp
next
  case (Suc n)
  have dz: "pz (edge ! (k + 1)) - pz (edge ! k) \<noteq> 0"
    using z_increasing_nth [OF assms(1), of k "k + 1"] Suc.prems by simp
  show ?case
  proof (cases "h \<le> pz (edge ! (k + 1))")
    case True
    have "getCellEdgeLocation_scan edge h k =
               (if px (edge ! k) = px (edge ! (k + 1)) \<and> py (edge ! k) = py (edge ! (k + 1))
                then Inl AssertionFailed
                else Inr (Point_plus \<lparr>X = px (edge ! k), Y = py (edge ! k)\<rparr>
                           (Point_div
                              (Point_times \<lparr>X = px (edge ! (k + 1)) - px (edge ! k),
                                            Y = py (edge ! (k + 1)) - py (edge ! k)\<rparr>
                                 (h - pz (edge ! k)))
                              (pz (edge ! (k + 1)) - pz (edge ! k)))))"
      using True Suc.prems dz
      by (subst getCellEdgeLocation_scan.simps) (auto simp: Let_def)
    with True Suc.prems show ?thesis
      by (intro exI [of _ k]) simp
  next
    case False
    have "k + 1 \<noteq> length edge - 1"
    proof
      assume "k + 1 = length edge - 1"
      moreover have "edge \<noteq> []" using Suc.prems by auto
      ultimately have "edge ! (k + 1) = last edge"
        by (simp add: last_conv_nth)
      with False assms(3) show False by simp
    qed
    with Suc.prems have k2: "(k + 1) + 1 < length edge" by simp
    have n: "n = length edge - (k + 1)" using Suc.hyps(2) by simp
    from Suc.hyps(1) [OF n k2] obtain i where
      i: "k + 1 \<le> i" "i + 1 < length edge" "h \<le> pz (edge ! (i + 1))"
         "\<forall>j. k + 1 \<le> j \<and> j < i \<longrightarrow> pz (edge ! (j + 1)) < h"
         "getCellEdgeLocation_scan edge h (k + 1) =
               (if px (edge ! i) = px (edge ! (i + 1)) \<and> py (edge ! i) = py (edge ! (i + 1))
                then Inl AssertionFailed
                else Inr (Point_plus \<lparr>X = px (edge ! i), Y = py (edge ! i)\<rparr>
                           (Point_div
                              (Point_times \<lparr>X = px (edge ! (i + 1)) - px (edge ! i),
                                            Y = py (edge ! (i + 1)) - py (edge ! i)\<rparr>
                                 (h - pz (edge ! i)))
                              (pz (edge ! (i + 1)) - pz (edge ! i)))))"
      by blast
    have step: "getCellEdgeLocation_scan edge h k = getCellEdgeLocation_scan edge h (k + 1)"
      using False Suc.prems by (subst getCellEdgeLocation_scan.simps) simp
    have below: "\<forall>j. k \<le> j \<and> j < i \<longrightarrow> pz (edge ! (j + 1)) < h"
    proof (intro allI impI)
      fix j assume j: "k \<le> j \<and> j < i"
      show "pz (edge ! (j + 1)) < h"
      proof (cases "j = k")
        case True
        with False show ?thesis by simp
      next
        case False
        with j i(4) show ?thesis by simp
      qed
    qed
    show ?thesis
      using i(1,2,3,5) step below by (intro exI [of _ i]) simp
  qed
qed

lemma scan_past_end:
  assumes "z_increasing edge" and "k < length edge" and "pz (last edge) < h"
  shows "getCellEdgeLocation_scan edge h k = Inl OutOfBounds"
  using assms(2)
proof (induction "length edge - k" arbitrary: k)
  case 0
  then show ?case by simp
next
  case (Suc n)
  show ?case
  proof (cases "k + 1 < length edge")
    case False
    with Suc.prems show ?thesis
      by (subst getCellEdgeLocation_scan.simps) simp
  next
    case True
    have "pz (edge ! (k + 1)) \<le> pz (last edge)"
    proof (cases "k + 1 = length edge - 1")
      case True
      moreover have "edge \<noteq> []" using Suc.prems by auto
      ultimately show ?thesis by (simp add: last_conv_nth)
    next
      case False
      with True have lt: "k + 1 < length edge - 1" by simp
      have ne: "edge \<noteq> []" using Suc.prems by auto
      from z_increasing_nth [OF assms(1) lt] ne show ?thesis
        by (simp add: last_conv_nth)
    qed
    with assms(3) have "\<not> h \<le> pz (edge ! (k + 1))" by simp
    then have "getCellEdgeLocation_scan edge h k = getCellEdgeLocation_scan edge h (k + 1)"
      using True by (subst getCellEdgeLocation_scan.simps) simp
    moreover have "n = length edge - (k + 1)" using Suc.hyps(2) by simp
    ultimately show ?thesis using Suc.hyps(1) True by simp
  qed
qed

lemmas scan_eval = getCellEdgeLocation_scan.simps [of "p # ps" h 0]
  getCellEdgeLocation_scan.simps [of "p # ps" h "Suc 0"]
  getCellEdgeLocation_scan.simps [of "p # ps" h "Suc (Suc 0)"]
  getCellEdgeLocation_scan.simps [of "p # ps" h "1"]
  getCellEdgeLocation_scan.simps [of "p # ps" h "numeral k"] for p ps h k

lemma getCellEdgeLocation_on_polyline:
  assumes "before < length (cell_data sub)" and "after < length (cell_data sub)"
    and "(if depth (cell_data sub ! after) > depth (cell_data sub ! before)
          then cell_to_left_edge_locations net after
          else cell_to_right_edge_locations net before) = Some edge"
    and "POLY edge"
  shows "(h \<le> pz (last edge) \<longrightarrow>
           (\<exists>i. i + 1 < length edge \<and> h \<le> pz (edge ! (i + 1))
              \<and> (\<forall>j. j < i \<longrightarrow> pz (edge ! (j + 1)) < h)
              \<and> getCellEdgeLocation sub net before after h =
                  (if px (edge ! i) = px (edge ! (i + 1)) \<and> py (edge ! i) = py (edge ! (i + 1))
                   then Inl AssertionFailed
                   else Inr (Point_plus \<lparr>X = px (edge ! i), Y = py (edge ! i)\<rparr>
                              (Point_div
                                 (Point_times \<lparr>X = px (edge ! (i + 1)) - px (edge ! i),
                                               Y = py (edge ! (i + 1)) - py (edge ! i)\<rparr>
                                    (h - pz (edge ! i)))
                                 (pz (edge ! (i + 1)) - pz (edge ! i)))))))
       \<and> (pz (last edge) < h \<longrightarrow> getCellEdgeLocation sub net before after h = Inl OutOfBounds)"
proof -
  from assms(4) have len: "2 \<le> length edge" and inc: "z_increasing edge"
    by (simp_all add: POLY_def)
  have q: "getCellEdgeLocation sub net before after h = getCellEdgeLocation_scan edge h 0"
    using assms(1,2,3) len by (simp add: getCellEdgeLocation_def)
  have k: "0 + 1 < length edge" and k0: "0 < length edge" using len by linarith+
  show ?thesis
  proof (intro conjI impI)
    assume "h \<le> pz (last edge)"
    from scan_from [OF inc k this] show "\<exists>i. i + 1 < length edge \<and> h \<le> pz (edge ! (i + 1))
              \<and> (\<forall>j. j < i \<longrightarrow> pz (edge ! (j + 1)) < h)
              \<and> getCellEdgeLocation sub net before after h =
                  (if px (edge ! i) = px (edge ! (i + 1)) \<and> py (edge ! i) = py (edge ! (i + 1))
                   then Inl AssertionFailed
                   else Inr (Point_plus \<lparr>X = px (edge ! i), Y = py (edge ! i)\<rparr>
                              (Point_div
                                 (Point_times \<lparr>X = px (edge ! (i + 1)) - px (edge ! i),
                                               Y = py (edge ! (i + 1)) - py (edge ! i)\<rparr>
                                    (h - pz (edge ! i)))
                                 (pz (edge ! (i + 1)) - pz (edge ! i)))))"
      unfolding q by auto
  next
    assume "pz (last edge) < h"
    from scan_past_end [OF inc k0 this] show "getCellEdgeLocation sub net before after h = Inl OutOfBounds"
      unfolding q .
  qed
qed

subsection \<open>The inclination check and the constructor\<close>





lemma constructor_passes:
  assumes "Cross3DPrismEdgeNetwork debug isect sub = Inr net"
  shows "construction_passes isect sub = Inr net"
  using assms
  by (auto simp: Cross3DPrismEdgeNetwork_def split: sum.splits option.splits)

lemma constructor_returned:
  assumes "\<not> isl (Cross3DPrismEdgeNetwork debug isect sub)"
  shows "Cross3DPrismEdgeNetwork debug isect sub = construction_passes isect sub"
proof -
  from assms obtain net where "Cross3DPrismEdgeNetwork debug isect sub = Inr net"
    by (cases "Cross3DPrismEdgeNetwork debug isect sub") auto
  with constructor_passes [OF this] show ?thesis by simp
qed



subsection \<open>Well-formed subdivisions\<close>

lemma layers_by_depthD:
  assumes "layers_by_depth sub" and "k < length (depth_ordered sub)"
    and "c \<in> set (depth_ordered sub ! k)"
  shows "c < length (cell_data sub)" and "depth (cell_data sub ! c) = int k"
proof -
  from assms(2) have "(k, depth_ordered sub ! k) \<in> set (enumerate 0 (depth_ordered sub))"
    by (simp add: in_set_enumerate_eq)
  with assms(1,3) show "c < length (cell_data sub)" and "depth (cell_data sub ! c) = int k"
    unfolding layers_by_depth_def by blast+
qed

lemma listed_in_layers: "listed sub c \<Longrightarrow> c \<in> set (concat (depth_ordered sub))"
  unfolding listed_def by (auto intro: nth_mem)

lemma neighbours_listedD:
  assumes "neighbours_listed sub" and "c \<in> set (concat (depth_ordered sub))"
    and "l \<in> set (adjacent_cells (cell_data sub ! c) d)"
  shows "listed sub (to_index l)"
proof -
  have "d \<in> {LEFT, RIGHT, UP, DOWN}" by (cases d) simp_all
  then show ?thesis
    using assms unfolding neighbours_listed_def by blast
qed

lemma lateral_consistentD:
  assumes "lateral_consistent sub" and "c \<in> set (concat (depth_ordered sub))"
    and "side = LEFT \<or> side = RIGHT"
    and "l \<in> set (adjacent_cells (cell_data sub ! c) side)"
  shows "c \<in> to_index ` set (adjacent_cells (cell_data sub ! to_index l) (opposite side))"
    and "1 < length (adjacent_cells (cell_data sub ! c) side)
           \<Longrightarrow> depth (cell_data sub ! c) < depth (cell_data sub ! to_index l)"
proof -
  from assms(3) have "side \<in> {LEFT, RIGHT}" by auto
  then have
    "c \<in> set (map to_index (adjacent_cells (cell_data sub ! to_index l) (opposite side)))
     \<and> (1 < length (adjacent_cells (cell_data sub ! c) side)
          \<longrightarrow> depth (cell_data sub ! c) < depth (cell_data sub ! to_index l))"
    using assms(1,2,4) unfolding lateral_consistent_def by blast
  then show "c \<in> to_index ` set (adjacent_cells (cell_data sub ! to_index l) (opposite side))"
    and "1 < length (adjacent_cells (cell_data sub ! c) side)
           \<Longrightarrow> depth (cell_data sub ! c) < depth (cell_data sub ! to_index l)"
    by simp_all
qed

lemma listed_valid: "listed sub c \<Longrightarrow> c < length (cell_data sub)"
  by (simp add: listed_def)

lemma single_lateral_neighbour:
  assumes "lateral_consistent sub" and "c \<in> set (concat (depth_ordered sub))"
    and "side = LEFT \<or> side = RIGHT"
    and "l \<in> set (adjacent_cells (cell_data sub ! c) side)"
    and "depth (cell_data sub ! to_index l) \<le> depth (cell_data sub ! c)"
  shows "adjacent_cells (cell_data sub ! c) side = [l]"
proof -
  have "\<not> 1 < length (adjacent_cells (cell_data sub ! c) side)"
    using lateral_consistentD(2) [OF assms(1-4)] assms(5) by auto
  with assms(4) show ?thesis
    by (cases "adjacent_cells (cell_data sub ! c) side") (auto simp: Suc_lessI)
qed

lemma owns_edge_front:
  assumes "adjacent_cells (cell_data sub ! c) side = [l]" and "to_index l < length (cell_data sub)"
  shows "owns_edge sub c side \<longleftrightarrow>
           (if side = LEFT then depth (cell_data sub ! c) > depth (cell_data sub ! to_index l)
            else depth (cell_data sub ! c) \<ge> depth (cell_data sub ! to_index l))"
  using assms by (simp add: owns_edge_def getNeighborDepth_def)

lemma oscillation_reference_unfold:
  assumes "adjacent_cells cell up_down \<noteq> []"
    and "nv = (if side = LEFT then to_index (hd (adjacent_cells cell up_down))
               else to_index (last (adjacent_cells cell up_down)))"
    and "nv < length (cell_data sub)"
    and "adjacent_cells (cell_data sub ! nv) side \<noteq> []"
    and "nvs = (if up_down = UP then to_index (hd (adjacent_cells (cell_data sub ! nv) side))
                else to_index (last (adjacent_cells (cell_data sub ! nv) side)))"
    and "nvs < length (cell_data sub)"
  shows "oscillation_reference sub cell side up_down =
      (if depth cell \<ge> max (depth (cell_data sub ! nv)) (depth (cell_data sub ! nvs))
       then Inr None
       else if depth (cell_data sub ! nv) > depth (cell_data sub ! nvs)
            \<or> (side = RIGHT \<and> depth (cell_data sub ! nv) = depth (cell_data sub ! nvs))
       then Inr (Some (if side = LEFT then LEFT else RIGHT, nv))
       else Inr (Some (if side = RIGHT then LEFT else RIGHT, nvs)))"
  using assms(1,3,4,6) unfolding assms(2,5) oscillation_reference_def Let_def
  by (simp only: if_False if_True simp_thms)

lemma oscillation_reference_deeper:
  assumes "oscillation_reference sub cell side up_down = Inr (Some (mapping_side, idx))"
  shows "idx < length (cell_data sub) \<and> depth cell < depth (cell_data sub ! idx)"
  using assms
  by (auto simp: oscillation_reference_def Let_def split: if_splits)

lemma oscillation_reference_owned:
  assumes wf: "wf_view sub" and c: "c \<in> set (concat (depth_ordered sub))"
    and side: "side = LEFT \<or> side = RIGHT"
    and ref: "oscillation_reference sub (cell_data sub ! c) side up_down = Inr (Some (ms, idx))"
  shows "listed sub idx \<and> depth (cell_data sub ! c) < depth (cell_data sub ! idx)
         \<and> (ms = LEFT \<or> ms = RIGHT) \<and> owns_edge sub idx ms"
proof -
  from wf have nl: "neighbours_listed sub" and lc: "lateral_consistent sub"
    by (simp_all add: wf_view_def)
  let ?cell = "cell_data sub ! c"
  let ?ups = "adjacent_cells ?cell up_down"
  have ups: "?ups \<noteq> []"
  proof
    assume "?ups = []"
    then have "oscillation_reference sub ?cell side up_down = Inr None"
      unfolding oscillation_reference_def Let_def by (simp only: if_True simp_thms)
    with ref show False by simp
  qed
  define nvl where "nvl = (if side = LEFT then hd ?ups else last ?ups)"
  define nv where "nv = to_index nvl"
  have "nvl \<in> set ?ups" unfolding nvl_def using ups by simp
  from neighbours_listedD [OF nl c this] have nv_listed: "listed sub nv"
    by (simp add: nv_def)
  then have nv_valid: "nv < length (cell_data sub)" by (rule listed_valid)
  from nv_listed have nv_in: "nv \<in> set (concat (depth_ordered sub))" by (rule listed_in_layers)
  let ?sides = "adjacent_cells (cell_data sub ! nv) side"
  have nv_eq: "nv = (if side = LEFT then to_index (hd ?ups) else to_index (last ?ups))"
    by (simp add: nv_def nvl_def)
  have sides: "?sides \<noteq> []"
  proof
    assume "?sides = []"
    with ups nv_valid have "oscillation_reference sub ?cell side up_down = Inl AssertionFailed"
      unfolding oscillation_reference_def Let_def nv_eq by (simp only: if_False if_True simp_thms)
    with ref show False by simp
  qed
  define nvsl where "nvsl = (if up_down = UP then hd ?sides else last ?sides)"
  define nvs where "nvs = to_index nvsl"
  have nvsl_in: "nvsl \<in> set ?sides" unfolding nvsl_def using sides by simp
  from neighbours_listedD [OF nl nv_in this] have nvs_listed: "listed sub nvs"
    by (simp add: nvs_def)
  then have nvs_valid: "nvs < length (cell_data sub)" by (rule listed_valid)
  from nvs_listed have nvs_in: "nvs \<in> set (concat (depth_ordered sub))" by (rule listed_in_layers)
  let ?A = "depth (cell_data sub ! nv) > depth (cell_data sub ! nvs)
            \<or> (side = RIGHT \<and> depth (cell_data sub ! nv) = depth (cell_data sub ! nvs))"
  have nvs_eq: "nvs = (if up_down = UP then to_index (hd ?sides) else to_index (last ?sides))"
    by (simp add: nvs_def nvsl_def)
  have unfolded: "oscillation_reference sub ?cell side up_down =
      (if depth ?cell \<ge> max (depth (cell_data sub ! nv)) (depth (cell_data sub ! nvs))
       then Inr None
       else if ?A then Inr (Some (if side = LEFT then LEFT else RIGHT, nv))
       else Inr (Some (if side = RIGHT then LEFT else RIGHT, nvs)))"
    by (rule oscillation_reference_unfold [OF ups nv_eq nv_valid sides nvs_eq nvs_valid])
  from ref unfolded have
    shallow: "\<not> depth ?cell \<ge> max (depth (cell_data sub ! nv)) (depth (cell_data sub ! nvs))"
    by (auto split: if_splits)
  show ?thesis
  proof (cases ?A)
    case True
    with ref unfolded shallow have ms: "ms = side" and idx: "idx = nv"
      using side by (auto split: if_splits)
    from True have "depth (cell_data sub ! to_index nvsl) \<le> depth (cell_data sub ! nv)"
      by (auto simp: nvs_def)
    from single_lateral_neighbour [OF lc nv_in side nvsl_in this]
    have single: "?sides = [nvsl]" .
    have "owns_edge sub nv side"
      using owns_edge_front [OF single] nvs_valid True side
      by (auto simp: nvs_def)
    moreover have "depth ?cell < depth (cell_data sub ! nv)"
      using shallow True by auto
    ultimately show ?thesis
      using nv_listed side by (simp add: ms idx)
  next
    case False
    with ref unfolded shallow have ms: "ms = opposite side" and idx: "idx = nvs"
      using side by (auto split: if_splits)
    let ?opp_list = "adjacent_cells (cell_data sub ! nvs) (opposite side)"
    from lateral_consistentD(1) [OF lc nv_in side nvsl_in]
    obtain l where l: "l \<in> set ?opp_list" and l_nv: "to_index l = nv"
      by (auto simp: nvs_def)
    have oside: "opposite side = LEFT \<or> opposite side = RIGHT"
      using side by auto
    from False have "depth (cell_data sub ! to_index l) \<le> depth (cell_data sub ! nvs)"
      by (auto simp: l_nv)
    from single_lateral_neighbour [OF lc nvs_in oside l this]
    have single: "?opp_list = [l]" .
    have "owns_edge sub nvs (opposite side)"
      using owns_edge_front [OF single] nv_valid False side
      by (auto simp: l_nv)
    moreover have "depth ?cell < depth (cell_data sub ! nvs)"
      using shallow False by auto
    ultimately show ?thesis
      using nvs_listed oside by (simp add: ms idx)
  qed
qed

lemma oscillation_reference_not_missing:
  "oscillation_reference sub cell side up_down \<noteq> Inl MissingEdge"
  unfolding oscillation_reference_def Let_def
  by (intro if_branches_differ) simp_all

lemma getNeighborDepth_not_missing: "getNeighborDepth sub cell side \<noteq> Inl MissingEdge"
  by (simp add: getNeighborDepth_def Let_def)

lemma applyOscillationConstraints_not_missing:
  assumes wf: "wf_view sub" and c: "c \<in> set (concat (depth_ordered sub))"
    and side: "side = LEFT \<or> side = RIGHT"
    and stored: "deeper_stored sub net (depth (cell_data sub ! c))"
  shows "applyOscillationConstraints sub net (cell_data sub ! c) side up_down edge \<noteq> Inl MissingEdge"
proof (cases "oscillation_reference sub (cell_data sub ! c) side up_down")
  case (Inl e)
  with oscillation_reference_not_missing [of sub "cell_data sub ! c" side up_down]
  show ?thesis by (simp add: applyOscillationConstraints_def)
next
  case (Inr r)
  show ?thesis
  proof (cases r)
    case None
    with Inr show ?thesis by (simp add: applyOscillationConstraints_def)
  next
    case (Some p)
    obtain ms idx where p: "p = (ms, idx)" by (cases p)
    from Inr Some p have ref:
      "oscillation_reference sub (cell_data sub ! c) side up_down = Inr (Some (ms, idx))" by simp
    from oscillation_reference_owned [OF wf c side ref] have
      l: "listed sub idx" and d: "depth (cell_data sub ! c) < depth (cell_data sub ! idx)"
      and ms: "ms = LEFT \<or> ms = RIGHT" and o: "owns_edge sub idx ms" by simp_all
    from stored l d o ms have
      "(if ms = LEFT then cell_to_left_edge_locations net else cell_to_right_edge_locations net) idx
         \<noteq> None"
      unfolding deeper_stored_def by auto
    then obtain edge_above where
      "(if ms = LEFT then cell_to_left_edge_locations net else cell_to_right_edge_locations net) idx
         = Some edge_above" by blast
    with ref adjustEdgeEnd_not_missing show ?thesis
      by (simp add: applyOscillationConstraints_def)
  qed
qed

lemma addCellEdge_not_missing:
  assumes "wf_view sub" and "c \<in> set (concat (depth_ordered sub))"
    and "side = LEFT \<or> side = RIGHT"
    and "deeper_stored sub net (depth (cell_data sub ! c))"
  shows "addCellEdge sub c side net \<noteq> Inl MissingEdge"
  using applyOscillationConstraints_not_missing [OF assms]
  unfolding addCellEdge_def Let_def
  by (auto split: sum.splits)

lemma addCellEdge_deeper_stored:
  assumes "addCellEdge sub c side net = Inr net'" and "deeper_stored sub net d"
  shows "deeper_stored sub net' d"
proof -
  have "dom (cell_to_left_edge_locations net) \<subseteq> dom (cell_to_left_edge_locations net')"
    and "dom (cell_to_right_edge_locations net) \<subseteq> dom (cell_to_right_edge_locations net')"
    using addCellEdge_dom [OF assms(1)] by auto
  with assms(2) show ?thesis
    unfolding deeper_stored_def by (meson domIff subsetD)
qed

lemma addCellEdges_not_missing:
  assumes wf: "wf_view sub" and c: "c \<in> set (concat (depth_ordered sub))"
    and stored: "deeper_stored sub net (depth (cell_data sub ! c))"
  shows "addCellEdges sub c net \<noteq> Inl MissingEdge"
proof -
  have l: "addCellEdge sub c LEFT net \<noteq> Inl MissingEdge"
    using addCellEdge_not_missing [OF wf c _ stored] by simp
  have r: "addCellEdge sub c RIGHT net1 \<noteq> Inl MissingEdge"
    if "addCellEdge sub c LEFT net = Inr net1 \<or> net1 = net" for net1
    using addCellEdge_not_missing [OF wf c, of RIGHT net1]
      addCellEdge_deeper_stored [of sub c LEFT net net1] stored that by auto
  show ?thesis
    using l r getNeighborDepth_not_missing
    unfolding addCellEdges_def Let_def
    by (auto split: sum.splits if_splits)
qed

lemma addCellEdges_deeper_stored:
  assumes "addCellEdges sub c net = Inr net'" and "deeper_stored sub net d"
  shows "deeper_stored sub net' d"
proof -
  have "dom (cell_to_left_edge_locations net) \<subseteq> dom (cell_to_left_edge_locations net')"
    and "dom (cell_to_right_edge_locations net) \<subseteq> dom (cell_to_right_edge_locations net')"
    using addCellEdges_dom [OF assms(1)] by auto
  with assms(2) show ?thesis
    unfolding deeper_stored_def by (meson domIff subsetD)
qed

lemma layer_not_missing:
  assumes wf: "wf_view sub"
    and cells: "\<forall>c \<in> set cs. c \<in> set (concat (depth_ordered sub))
                  \<and> depth (cell_data sub ! c) = k"
    and stored: "deeper_stored sub net k"
  shows "foldE (addCellEdges sub) cs net \<noteq> Inl MissingEdge"
  using cells stored
proof (induction cs arbitrary: net)
  case Nil
  then show ?case by simp
next
  case (Cons c cs)
  from Cons.prems(1) have c: "c \<in> set (concat (depth_ordered sub))"
    and d: "depth (cell_data sub ! c) = k"
    by simp_all
  from Cons.prems(2) d have s: "deeper_stored sub net (depth (cell_data sub ! c))" by simp
  show ?case
  proof (cases "addCellEdges sub c net")
    case (Inl e)
    with addCellEdges_not_missing [OF wf c s] show ?thesis by simp
  next
    case (Inr net1)
    from addCellEdges_deeper_stored [OF Inr Cons.prems(2)] Cons.prems(1)
    have "foldE (addCellEdges sub) cs net1 \<noteq> Inl MissingEdge"
      by (intro Cons.IH) simp_all
    with Inr show ?thesis by simp
  qed
qed

lemma layer_result:
  assumes run: "foldE (addCellEdges sub) cs net = Inr net'"
    and stored: "deeper_stored sub net k"
    and all: "\<forall>idx. listed sub idx \<and> depth (cell_data sub ! idx) = k \<longrightarrow> idx \<in> set cs"
  shows "deeper_stored sub net' (k - 1)"
  unfolding deeper_stored_def
proof (intro allI impI)
  fix idx assume h: "listed sub idx \<and> k - 1 < depth (cell_data sub ! idx)"
  from builder_fold_dom [OF run] have
    L: "dom (cell_to_left_edge_locations net') =
          dom (cell_to_left_edge_locations net) \<union> {c \<in> set cs. owns_edge sub c LEFT}" and
    R: "dom (cell_to_right_edge_locations net') =
          dom (cell_to_right_edge_locations net) \<union> {c \<in> set cs. owns_edge sub c RIGHT}"
    by simp_all
  show "(owns_edge sub idx LEFT \<longrightarrow> cell_to_left_edge_locations net' idx \<noteq> None)
        \<and> (owns_edge sub idx RIGHT \<longrightarrow> cell_to_right_edge_locations net' idx \<noteq> None)"
  proof (cases "depth (cell_data sub ! idx) = k")
    case True
    with h all have "idx \<in> set cs" by simp
    then have "owns_edge sub idx LEFT \<longrightarrow> idx \<in> dom (cell_to_left_edge_locations net')"
      and "owns_edge sub idx RIGHT \<longrightarrow> idx \<in> dom (cell_to_right_edge_locations net')"
      unfolding L R by simp_all
    then show ?thesis by (simp add: domIff)
  next
    case False
    with h have "k < depth (cell_data sub ! idx)" by simp
    with stored h have
      "owns_edge sub idx LEFT \<longrightarrow> idx \<in> dom (cell_to_left_edge_locations net)"
      and "owns_edge sub idx RIGHT \<longrightarrow> idx \<in> dom (cell_to_right_edge_locations net)"
      unfolding deeper_stored_def by (simp_all add: domIff)
    then have "owns_edge sub idx LEFT \<longrightarrow> idx \<in> dom (cell_to_left_edge_locations net')"
      and "owns_edge sub idx RIGHT \<longrightarrow> idx \<in> dom (cell_to_right_edge_locations net')"
      unfolding L R by simp_all
    then show ?thesis by (simp add: domIff)
  qed
qed

lemma layers_not_missing:
  assumes wf: "wf_view sub"
  shows "depth_ordered sub = ls @ rest \<Longrightarrow> deeper_stored sub net (int (length ls) - 1)
           \<Longrightarrow> foldE (addCellEdges sub) (concat (rev ls)) net \<noteq> Inl MissingEdge"
proof (induction ls arbitrary: net rest rule: rev_induct)
  case Nil
  then show ?case by simp
next
  case (snoc l ls)
  from wf have lbd: "layers_by_depth sub" by (simp add: wf_view_def)
  from snoc.prems(1) have k: "length ls < length (depth_ordered sub)"
    and l: "depth_ordered sub ! length ls = l"
    by (simp_all add: nth_append)
  from snoc.prems(1) have "set l \<subseteq> set (concat (depth_ordered sub))" by auto
  then have cells: "\<forall>c \<in> set l. c \<in> set (concat (depth_ordered sub))
                      \<and> depth (cell_data sub ! c) = int (length ls)"
    using layers_by_depthD [OF lbd k] l by auto
  from snoc.prems(2) have stored: "deeper_stored sub net (int (length ls))" by simp
  have all: "\<forall>idx. listed sub idx \<and> depth (cell_data sub ! idx) = int (length ls) \<longrightarrow> idx \<in> set l"
    using l by (auto simp: listed_def)
  show ?case
  proof (cases "foldE (addCellEdges sub) l net")
    case (Inl e)
    with layer_not_missing [OF wf cells stored] show ?thesis
      by (simp add: foldE_append)
  next
    case (Inr net1)
    from layer_result [OF Inr stored all]
    have "deeper_stored sub net1 (int (length ls) - 1)" .
    moreover from snoc.prems(1) have "depth_ordered sub = ls @ (l # rest)" by simp
    ultimately have "foldE (addCellEdges sub) (concat (rev ls)) net1 \<noteq> Inl MissingEdge"
      by (rule snoc.IH [rotated])
    with Inr show ?thesis by (simp add: foldE_append)
  qed
qed

lemma builder_pass_not_missing:
  assumes "wf_view sub"
  shows "builder_pass sub \<noteq> Inl MissingEdge"
proof -
  have "deeper_stored sub empty_network (int (length (depth_ordered sub)) - 1)"
    unfolding deeper_stored_def listed_def by auto
  from layers_not_missing [OF assms _ this, of "[]"] show ?thesis
    by (simp add: builder_pass_def)
qed

section \<open>The claims\<close>

text \<open>
  C1. Ownership rule: once the constructor has returned, in a build with or without
  \<open>DEBUG\<close>, a cell that the depth ordering lists has an entry in the left-edge mapping
  iff its depth is greater than the depth of its LEFT neighbour (the front of its LEFT
  list), and an entry in the right-edge mapping iff its depth is greater than or equal to
  the depth of its RIGHT neighbour. When two cells of equal depth are each other's
  lateral neighbours, only the left one stores the shared edge, in the right-edge
  mapping.
\<close>

theorem ownership_rule:
  assumes "\<not> isl (Cross3DPrismEdgeNetwork debug isect sub)"
    and "c \<in> set (concat (depth_ordered sub))"
  shows "(\<forall>l ls. adjacent_cells (cell_data sub ! c) LEFT = l # ls \<longrightarrow>
            (left_edge_of (Cross3DPrismEdgeNetwork debug isect sub) c \<noteq> None
               \<longleftrightarrow> depth (cell_data sub ! c) > depth (cell_data sub ! to_index l)))
       \<and> (\<forall>r rs. adjacent_cells (cell_data sub ! c) RIGHT = r # rs \<longrightarrow>
            (right_edge_of (Cross3DPrismEdgeNetwork debug isect sub) c \<noteq> None
               \<longleftrightarrow> depth (cell_data sub ! c) \<ge> depth (cell_data sub ! to_index r)))
       \<and> (\<forall>r rs l ls.
            adjacent_cells (cell_data sub ! c) RIGHT = r # rs
            \<and> to_index r \<in> set (concat (depth_ordered sub))
            \<and> adjacent_cells (cell_data sub ! to_index r) LEFT = l # ls \<and> to_index l = c
            \<and> depth (cell_data sub ! to_index r) = depth (cell_data sub ! c)
            \<longrightarrow> right_edge_of (Cross3DPrismEdgeNetwork debug isect sub) c \<noteq> None
                \<and> left_edge_of (Cross3DPrismEdgeNetwork debug isect sub) (to_index r) = None)"
proof -
  note eq = constructor_returned [OF assms(1)]
  from assms(1) have ok: "\<not> isl (construction_passes isect sub)"
    unfolding eq .
  show ?thesis
    unfolding eq
  proof (intro conjI allI impI)
    fix l ls assume adj: "adjacent_cells (cell_data sub ! c) LEFT = l # ls"
    from constructor_edges [OF ok assms(2)] obtain dl where
      dl: "getNeighborDepth sub (cell_data sub ! c) LEFT = Inr dl" and
      L: "left_edge_of (construction_passes isect sub) c \<noteq> None
            \<longleftrightarrow> depth (cell_data sub ! c) > dl"
      by blast
    from L getNeighborDepth_front [OF dl adj]
    show "left_edge_of (construction_passes isect sub) c \<noteq> None
            \<longleftrightarrow> depth (cell_data sub ! c) > depth (cell_data sub ! to_index l)"
      by simp
  next
    fix r rs assume adj: "adjacent_cells (cell_data sub ! c) RIGHT = r # rs"
    from constructor_edges [OF ok assms(2)] obtain dr where
      dr: "getNeighborDepth sub (cell_data sub ! c) RIGHT = Inr dr" and
      R: "right_edge_of (construction_passes isect sub) c \<noteq> None
            \<longleftrightarrow> depth (cell_data sub ! c) \<ge> dr"
      by blast
    from R getNeighborDepth_front [OF dr adj]
    show "right_edge_of (construction_passes isect sub) c \<noteq> None
            \<longleftrightarrow> depth (cell_data sub ! c) \<ge> depth (cell_data sub ! to_index r)"
      by simp
  next
    fix r rs l ls
    assume h: "adjacent_cells (cell_data sub ! c) RIGHT = r # rs
              \<and> to_index r \<in> set (concat (depth_ordered sub))
              \<and> adjacent_cells (cell_data sub ! to_index r) LEFT = l # ls \<and> to_index l = c
              \<and> depth (cell_data sub ! to_index r) = depth (cell_data sub ! c)"
    from constructor_edges [OF ok assms(2)] obtain dr where
      dr: "getNeighborDepth sub (cell_data sub ! c) RIGHT = Inr dr" and
      R: "right_edge_of (construction_passes isect sub) c \<noteq> None
            \<longleftrightarrow> depth (cell_data sub ! c) \<ge> dr"
      by blast
    from h have rl: "to_index r \<in> set (concat (depth_ordered sub))" by simp
    from constructor_edges [OF ok rl] obtain dl where
      dl: "getNeighborDepth sub (cell_data sub ! to_index r) LEFT = Inr dl" and
      L: "left_edge_of (construction_passes isect sub) (to_index r) \<noteq> None
            \<longleftrightarrow> depth (cell_data sub ! to_index r) > dl"
      by blast
    from h getNeighborDepth_front [OF dr] have "dr = depth (cell_data sub ! c)" by auto
    moreover from h getNeighborDepth_front [OF dl] have "dl = depth (cell_data sub ! c)" by auto
    ultimately
    have "right_edge_of (construction_passes isect sub) c \<noteq> None
          \<and> left_edge_of (construction_passes isect sub) (to_index r) = None"
      using R L h by simp
    then show "right_edge_of (construction_passes isect sub) c \<noteq> None"
      and "left_edge_of (construction_passes isect sub) (to_index r) = None"
      by simp_all
  qed
qed

theorem ownership_rule_witness:
  "\<not> isl (Cross3DPrismEdgeNetwork None midpoint_isect resolver_example)
   \<and> 4 \<in> set (concat (depth_ordered resolver_example))
   \<and> adjacent_cells (cell_data resolver_example ! 4) LEFT = [\<lparr>to_index = 3\<rparr>]
   \<and> adjacent_cells (cell_data resolver_example ! 4) RIGHT = [\<lparr>to_index = 5\<rparr>]
   \<and> adjacent_cells (cell_data resolver_example ! 5) LEFT = [\<lparr>to_index = 4\<rparr>]
   \<and> depth (cell_data resolver_example ! 4) = depth (cell_data resolver_example ! 5)
   \<and> left_edge_of (Cross3DPrismEdgeNetwork None midpoint_isect resolver_example) 4 = None
   \<and> right_edge_of (Cross3DPrismEdgeNetwork None midpoint_isect resolver_example) 4 \<noteq> None
   \<and> left_edge_of (Cross3DPrismEdgeNetwork None midpoint_isect resolver_example) 5 = None"
proof -
  have ok: "\<not> isl (Cross3DPrismEdgeNetwork None midpoint_isect resolver_example)"
    by (simp add: run_defs geom_defs resolver_example_def)
  have listed: "4 \<in> set (concat (depth_ordered resolver_example))"
    by (simp add: resolver_example_def)
  have adj: "adjacent_cells (cell_data resolver_example ! 4) LEFT = [\<lparr>to_index = 3\<rparr>]"
    "adjacent_cells (cell_data resolver_example ! 4) RIGHT = [\<lparr>to_index = 5\<rparr>]"
    "adjacent_cells (cell_data resolver_example ! 5) LEFT = [\<lparr>to_index = 4\<rparr>]"
    "depth (cell_data resolver_example ! 4) = depth (cell_data resolver_example ! 5)"
    "depth (cell_data resolver_example ! 3) = depth (cell_data resolver_example ! 4)"
    "5 \<in> set (concat (depth_ordered resolver_example))"
    by (simp_all add: resolver_example_def)
  from ownership_rule [OF ok listed] adj ok listed show ?thesis
    by simp
qed



text \<open>
  C3. Edge query outside the range of the polyline. After the construction on
  \<open>column_example\<close>, which passes the inclination check, the right edge of cell 1 runs
  from height 0 to height 2000. A query between the cells 1 and 2 at height 1500, inside
  the range, returns the interpolated point. At height -200, below the range, the first
  pair already satisfies \<open>z <= edge_locations[1].z\<close>: no assertion is reached and the
  query returns a point extrapolated from that pair, (1000, -100), outside the edge. At
  height 2500, above the range, the loop runs up to the last index and reads
  \<open>edge_locations[edge_locations.size()]\<close> before it can reach the final assertion.
\<close>

theorem edge_query_outside_range:
  "\<not> isl (Cross3DPrismEdgeNetwork (Some rise_above_7_10) midpoint_isect column_example)
   \<and> right_edge_of (Cross3DPrismEdgeNetwork None midpoint_isect column_example) 1
       = Some [\<lparr>px = 1000, py = 0, pz = 0\<rparr>, \<lparr>px = 1000, py = 500, pz = 1000\<rparr>,
               \<lparr>px = 1000, py = 0, pz = 2000\<rparr>]
   \<and> query_after (Cross3DPrismEdgeNetwork None midpoint_isect column_example)
         column_example 1 2 1500 = Inr \<lparr>X = 1000, Y = 250\<rparr>
   \<and> query_after (Cross3DPrismEdgeNetwork None midpoint_isect column_example)
         column_example 1 2 (- 200) = Inr \<lparr>X = 1000, Y = - 100\<rparr>
   \<and> query_after (Cross3DPrismEdgeNetwork None midpoint_isect column_example)
         column_example 1 2 2500 = Inl OutOfBounds"
proof -
  have n: "Cross3DPrismEdgeNetwork None midpoint_isect column_example
           = Inr \<lparr>cell_to_left_edge_locations = Map.empty,
                   cell_to_right_edge_locations =
                     [5 \<mapsto> [\<lparr>px = 1000, py = 0, pz = 2000\<rparr>, \<lparr>px = 1000, py = 1000, pz = 3000\<rparr>],
                      6 \<mapsto> [\<lparr>px = 1000, py = 1000, pz = 3000\<rparr>, \<lparr>px = 1000, py = 0, pz = 4000\<rparr>],
                      1 \<mapsto> [\<lparr>px = 1000, py = 0, pz = 0\<rparr>, \<lparr>px = 1000, py = 500, pz = 1000\<rparr>,
                            \<lparr>px = 1000, py = 0, pz = 2000\<rparr>]]\<rparr>"
    by (simp add: run_defs geom_defs column_example_def)
  have d: "\<not> isl (Cross3DPrismEdgeNetwork (Some rise_above_7_10) midpoint_isect column_example)"
    by (simp add: run_defs geom_defs column_example_def rise_above_7_10_def)
  have c: "1 < length (cell_data column_example)" "2 < length (cell_data column_example)"
    "depth (cell_data column_example ! 1) = 1" "depth (cell_data column_example ! 2) = 1"
    by (simp_all add: column_example_def)
  show ?thesis
    using d c
    by (simp add: n query_after_def right_edge_of_def getCellEdgeLocation_def scan_eval
          geom_defs Let_def)
qed

text \<open>
  C4. Adjust Edge End, bend policy, as the code has it: for a polyline with the endpoint
  \<open>t\<close> to move and its neighbour \<open>a\<close>, a destination other than \<open>t\<close>, and a nonzero
  length \<open>n\<close> of the XY projection of \<open>a - t\<close> (a 2D length, not the 3D length of the
  segment), the bend is \<open>t + ((dir * m) / 2) / n\<close> with \<open>dir = a - t\<close>, \<open>m\<close> the 2D
  distance from \<open>t\<close> to the destination and every division an integer division per
  coordinate; it is inserted next to the moved endpoint iff both squared 3D distances,
  to \<open>a\<close> and to the destination, exceed 100, and in both cases the endpoint becomes
  the destination.
\<close>

theorem adjustEdgeEnd_bend_policy:
  assumes "t \<noteq> destination" and "vSize (toPoint (Point3_minus a t)) \<noteq> 0"
  shows
    "let m = vSize (Point_minus (toPoint destination) (toPoint t));
         n = vSize (toPoint (Point3_minus a t));
         bend = Point3_plus t (Point3_div (Point3_div (Point3_times (Point3_minus a t) m) 2) n);
         inserted = (if Point3_vSize2 (Point3_minus bend a) > 100
                        \<and> Point3_vSize2 (Point3_minus bend destination) > 100
                     then [bend] else [])
     in adjustEdgeEnd (pre @ [a, t]) UP destination = Inr (pre @ [a] @ inserted @ [destination])
        \<and> adjustEdgeEnd (t # a # post) DOWN destination = Inr ([destination] @ inserted @ a # post)"
  using assms
  by (simp add: adjustEdgeEnd_def Let_def insert_at_def nth_append list_update_append)

theorem adjustEdgeEnd_bend_policy_witness:
  "\<lparr>px = 300, py = 0, pz = 400\<rparr> \<noteq> \<lparr>px = 500, py = 0, pz = 400\<rparr>
   \<and> vSize (toPoint (Point3_minus \<lparr>px = 0, py = 0, pz = 0\<rparr> \<lparr>px = 300, py = 0, pz = 400\<rparr>)) = 300
   \<and> adjustEdgeEnd [\<lparr>px = 0, py = 0, pz = 0\<rparr>, \<lparr>px = 300, py = 0, pz = 400\<rparr>] UP
        \<lparr>px = 500, py = 0, pz = 400\<rparr>
      = Inr [\<lparr>px = 0, py = 0, pz = 0\<rparr>, \<lparr>px = 200, py = 0, pz = 267\<rparr>,
             \<lparr>px = 500, py = 0, pz = 400\<rparr>]
   \<and> adjustEdgeEnd [\<lparr>px = 300, py = 0, pz = 400\<rparr>, \<lparr>px = 0, py = 0, pz = 0\<rparr>] DOWN
        \<lparr>px = 300, py = 5, pz = 400\<rparr>
      = Inr [\<lparr>px = 300, py = 5, pz = 400\<rparr>, \<lparr>px = 0, py = 0, pz = 0\<rparr>]"
proof -
  have n: "vSize (toPoint (Point3_minus \<lparr>px = 0, py = 0, pz = 0\<rparr> \<lparr>px = 300, py = 0, pz = 400\<rparr>)) = 300"
    by (simp add: geom_defs isqrt_eval Let_def)
  have d1: "\<lparr>px = 300, py = 0, pz = 400\<rparr> \<noteq> \<lparr>px = 500, py = 0, pz = (400::int)\<rparr>"
    and d2: "\<lparr>px = 300, py = 0, pz = 400\<rparr> \<noteq> \<lparr>px = 300, py = 5, pz = (400::int)\<rparr>"
    by simp_all
  have n0: "vSize (toPoint (Point3_minus \<lparr>px = 0, py = 0, pz = 0\<rparr> \<lparr>px = 300, py = 0, pz = 400\<rparr>)) \<noteq> 0"
    using n by simp
  from adjustEdgeEnd_bend_policy [OF d1 n0, of "[]" "[]", unfolded Let_def]
       adjustEdgeEnd_bend_policy [OF d2 n0, of "[]" "[]", unfolded Let_def] n d1
  show ?thesis
    by (simp add: geom_defs isqrt_eval)
qed

text \<open>
  With the 3D length of the adjacent segment the bend would be (240, 0, 320), more than
  10 away from both neighbours; the code inserts (200, 0, 267).
\<close>

theorem adjustEdgeEnd_bend_policy_counterexample:
  "adjustEdgeEnd [\<lparr>px = 0, py = 0, pz = 0\<rparr>, \<lparr>px = 300, py = 0, pz = 400\<rparr>] UP
     \<lparr>px = 500, py = 0, pz = 400\<rparr>
   = Inr [\<lparr>px = 0, py = 0, pz = 0\<rparr>, \<lparr>px = 200, py = 0, pz = 267\<rparr>,
          \<lparr>px = 500, py = 0, pz = 400\<rparr>]
   \<and> spec_bend \<lparr>px = 300, py = 0, pz = 400\<rparr> \<lparr>px = 0, py = 0, pz = 0\<rparr>
        \<lparr>px = 500, py = 0, pz = 400\<rparr>
      = \<lparr>px = 240, py = 0, pz = 320\<rparr>
   \<and> Point3_vSize2 (Point3_minus \<lparr>px = 240, py = 0, pz = 320\<rparr> \<lparr>px = 0, py = 0, pz = 0\<rparr>) > 100
   \<and> Point3_vSize2 (Point3_minus \<lparr>px = 240, py = 0, pz = 320\<rparr> \<lparr>px = 500, py = 0, pz = 400\<rparr>)
        > 100"
  by (simp add: adjustEdgeEnd_def spec_bend_def insert_at_def geom_defs isqrt_eval Let_def)

text \<open>
  C5. Adjust Edge End, no-op, as the code has it: the polyline is returned unchanged
  when the endpoint to move equals the destination in all three coordinates.
\<close>

theorem adjustEdgeEnd_same_point:
  assumes "edge_locations \<noteq> []"
    and "(if up_down = UP then last edge_locations else hd edge_locations) = move_destination"
  shows "adjustEdgeEnd edge_locations up_down move_destination = Inr edge_locations"
  using assms
  by (auto simp: adjustEdgeEnd_def Let_def last_conv_nth hd_conv_nth split: if_splits)

theorem adjustEdgeEnd_same_point_witness:
  "[\<lparr>px = 0, py = 0, pz = 0\<rparr>, \<lparr>px = 100, py = 0, pz = 100\<rparr>] \<noteq> []
   \<and> last [\<lparr>px = 0, py = 0, pz = 0\<rparr>, \<lparr>px = 100, py = 0, pz = 100\<rparr>]
       = \<lparr>px = 100, py = 0, pz = 100\<rparr>
   \<and> adjustEdgeEnd [\<lparr>px = 0, py = 0, pz = 0\<rparr>, \<lparr>px = 100, py = 0, pz = 100\<rparr>] UP
        \<lparr>px = 100, py = 0, pz = 100\<rparr>
      = Inr [\<lparr>px = 0, py = 0, pz = 0\<rparr>, \<lparr>px = 100, py = 0, pz = 100\<rparr>]"
  using adjustEdgeEnd_same_point
          [of "[\<lparr>px = 0, py = 0, pz = 0\<rparr>, \<lparr>px = 100, py = 0, pz = 100\<rparr>]" UP
              "\<lparr>px = 100, py = 0, pz = 100\<rparr>"]
  by simp

text \<open>
  As the specification states it, with a 2D move length of 0, the property fails: a
  destination right above the endpoint has a 2D move length of 0, and the polyline
  changes.
\<close>

theorem adjustEdgeEnd_zero_move_counterexample:
  "vSize (Point_minus (toPoint \<lparr>px = 100, py = 0, pz = 200\<rparr>)
            (toPoint (last [\<lparr>px = 0, py = 0, pz = 0\<rparr>, \<lparr>px = 100, py = 0, pz = 100\<rparr>]))) = 0
   \<and> adjustEdgeEnd [\<lparr>px = 0, py = 0, pz = 0\<rparr>, \<lparr>px = 100, py = 0, pz = 100\<rparr>] UP
        \<lparr>px = 100, py = 0, pz = 200\<rparr>
      = Inr [\<lparr>px = 0, py = 0, pz = 0\<rparr>, \<lparr>px = 100, py = 0, pz = 100\<rparr>,
             \<lparr>px = 100, py = 0, pz = 200\<rparr>]"
  by (simp add: adjustEdgeEnd_def insert_at_def geom_defs isqrt_eval Let_def)

text \<open>
  C6. Oscillation constraint, no constraint: the routine returns the polyline unchanged
  when the list of neighbours in the vertical direction is empty, and when the depth of
  the cell is at least the larger of the depths of the vertical neighbour \<open>N_V\<close> (front
  of the list for LEFT, back otherwise) and of its lateral neighbour \<open>N_VS\<close> (front for
  UP, back otherwise). No mapping is read: the result is the same for every network.
\<close>

theorem applyOscillationConstraints_no_constraint:
  "(adjacent_cells cell up_down = [] \<longrightarrow>
      applyOscillationConstraints sub net cell edge_side up_down edge_locations = Inr edge_locations)
   \<and> (\<forall>n_v n_vs.
        adjacent_cells cell up_down \<noteq> []
        \<and> n_v = to_index (if edge_side = LEFT then hd (adjacent_cells cell up_down)
                           else last (adjacent_cells cell up_down))
        \<and> n_v < length (cell_data sub)
        \<and> adjacent_cells (cell_data sub ! n_v) edge_side \<noteq> []
        \<and> n_vs = to_index (if up_down = UP then hd (adjacent_cells (cell_data sub ! n_v) edge_side)
                            else last (adjacent_cells (cell_data sub ! n_v) edge_side))
        \<and> n_vs < length (cell_data sub)
        \<and> depth cell \<ge> max (depth (cell_data sub ! n_v)) (depth (cell_data sub ! n_vs))
        \<longrightarrow> applyOscillationConstraints sub net cell edge_side up_down edge_locations = Inr edge_locations)"
  by (auto simp: applyOscillationConstraints_def oscillation_reference_def Let_def)

theorem applyOscillationConstraints_no_constraint_witness:
  "adjacent_cells (cell_data resolver_example ! 4) UP = []
   \<and> applyOscillationConstraints resolver_example empty_network (cell_data resolver_example ! 4)
        RIGHT UP [\<lparr>px = 1000, py = 0, pz = 1000\<rparr>, \<lparr>px = 1000, py = 1000, pz = 1500\<rparr>]
      = Inr [\<lparr>px = 1000, py = 0, pz = 1000\<rparr>, \<lparr>px = 1000, py = 1000, pz = 1500\<rparr>]
   \<and> adjacent_cells (cell_data resolver_example ! 4) DOWN = [\<lparr>to_index = 1\<rparr>]
   \<and> adjacent_cells (cell_data resolver_example ! 1) RIGHT = [\<lparr>to_index = 2\<rparr>]
   \<and> depth (cell_data resolver_example ! 4)
        \<ge> max (depth (cell_data resolver_example ! 1)) (depth (cell_data resolver_example ! 2))
   \<and> applyOscillationConstraints resolver_example empty_network (cell_data resolver_example ! 4)
        RIGHT DOWN [\<lparr>px = 1000, py = 0, pz = 1000\<rparr>, \<lparr>px = 1000, py = 1000, pz = 1500\<rparr>]
      = Inr [\<lparr>px = 1000, py = 0, pz = 1000\<rparr>, \<lparr>px = 1000, py = 1000, pz = 1500\<rparr>]"
proof -
  have facts:
    "adjacent_cells (cell_data resolver_example ! 4) UP = []"
    "adjacent_cells (cell_data resolver_example ! 4) DOWN = [\<lparr>to_index = 1\<rparr>]"
    "adjacent_cells (cell_data resolver_example ! 1) RIGHT = [\<lparr>to_index = 2\<rparr>]"
    "depth (cell_data resolver_example ! 4)
        \<ge> max (depth (cell_data resolver_example ! 1)) (depth (cell_data resolver_example ! 2))"
    "length (cell_data resolver_example) = 7"
    by (simp_all add: resolver_example_def)
  from applyOscillationConstraints_no_constraint
         [of "cell_data resolver_example ! 4" UP resolver_example empty_network RIGHT
             "[\<lparr>px = 1000, py = 0, pz = 1000\<rparr>, \<lparr>px = 1000, py = 1000, pz = 1500\<rparr>]"]
       applyOscillationConstraints_no_constraint
         [of "cell_data resolver_example ! 4" DOWN resolver_example empty_network RIGHT
             "[\<lparr>px = 1000, py = 0, pz = 1000\<rparr>, \<lparr>px = 1000, py = 1000, pz = 1500\<rparr>]"]
       facts
  show ?thesis by simp
qed

text \<open>
  C7. Discontinuity resolver: the routine returns the network unchanged when the cell
  has fewer than two neighbours in direction \<open>V\<close>. Otherwise, when it returns, it has
  replaced the RIGHT-edge polyline of the front neighbour in \<open>adjacent[V]\<close> by the
  result of Adjust Edge End in direction \<open>opposite(V)\<close> towards the intersection of
  that neighbour's \<open>toEdge\<close> with the 2D segment joining the \<open>V\<close>-side endpoints of the
  LEFT-side and RIGHT-side edges of the cell (as Get Edge finds them), lifted to the
  neighbour's \<open>z_min\<close> for UP and \<open>z_max\<close> for DOWN; nothing else changes.
\<close>

theorem preventZdiscontinuityProblem_moves_endpoint:
  assumes "c < length (cell_data sub)"
  shows "(length (adjacent_cells (cell_data sub ! c) up_down) < 2 \<longrightarrow>
            preventZdiscontinuityProblem isect sub c up_down net = Inr net)
       \<and> (\<forall>net'.
            2 \<le> length (adjacent_cells (cell_data sub ! c) up_down)
            \<and> preventZdiscontinuityProblem isect sub c up_down net = Inr net'
            \<longrightarrow> (\<exists>left_side right_side trouble adjusted.
                   getEdge sub net c LEFT up_down = Inr left_side
                 \<and> getEdge sub net c RIGHT up_down = Inr right_side
                 \<and> cell_to_right_edge_locations net
                      (to_index (hd (adjacent_cells (cell_data sub ! c) up_down))) = Some trouble
                 \<and> adjustEdgeEnd trouble (opposite up_down)
                      (toPoint3
                         (isect
                            (to_edge (cell_data sub
                               ! to_index (hd (adjacent_cells (cell_data sub ! c) up_down))))
                            \<lparr>seg_from = toPoint (if up_down = UP then last left_side
                                                   else hd left_side),
                             seg_to = toPoint (if up_down = UP then last right_side
                                                 else hd right_side)\<rparr>)
                         (if up_down = UP
                          then z_min (cell_data sub
                                 ! to_index (hd (adjacent_cells (cell_data sub ! c) up_down)))
                          else z_max (cell_data sub
                                 ! to_index (hd (adjacent_cells (cell_data sub ! c) up_down)))))
                    = Inr adjusted
                 \<and> net' = net\<lparr>cell_to_right_edge_locations :=
                              fun_upd (cell_to_right_edge_locations net)
                                (to_index (hd (adjacent_cells (cell_data sub ! c) up_down)))
                                (Some adjusted)\<rparr>))"
  using assms
  by (auto simp: preventZdiscontinuityProblem_def Let_def overwrite_def
           split: sum.splits option.splits if_splits)

theorem preventZdiscontinuityProblem_moves_endpoint_witness:
  "1 < length (cell_data resolver_example)
   \<and> length (adjacent_cells (cell_data resolver_example ! 1) DOWN) < 2
   \<and> preventZdiscontinuityProblem midpoint_isect resolver_example 1 DOWN resolver_example_network
       = Inr resolver_example_network
   \<and> 2 \<le> length (adjacent_cells (cell_data resolver_example ! 1) UP)
   \<and> to_index (hd (adjacent_cells (cell_data resolver_example ! 1) UP)) = 4
   \<and> getEdge resolver_example resolver_example_network 1 LEFT UP
       = Inr [\<lparr>px = 0, py = 0, pz = 0\<rparr>, \<lparr>px = 0, py = 1000, pz = 1000\<rparr>]
   \<and> getEdge resolver_example resolver_example_network 1 RIGHT UP
       = Inr [\<lparr>px = 2000, py = 0, pz = 0\<rparr>, \<lparr>px = 2000, py = 1000, pz = 1000\<rparr>]
   \<and> cell_to_right_edge_locations resolver_example_network 4
       = Some [\<lparr>px = 1000, py = 0, pz = 1000\<rparr>, \<lparr>px = 1000, py = 1000, pz = 1500\<rparr>]
   \<and> adjustEdgeEnd [\<lparr>px = 1000, py = 0, pz = 1000\<rparr>, \<lparr>px = 1000, py = 1000, pz = 1500\<rparr>] DOWN
         \<lparr>px = 1000, py = 500, pz = 1000\<rparr>
       = Inr [\<lparr>px = 1000, py = 500, pz = 1000\<rparr>, \<lparr>px = 1000, py = 250, pz = 1125\<rparr>,
              \<lparr>px = 1000, py = 1000, pz = 1500\<rparr>]
   \<and> right_edge_of
         (preventZdiscontinuityProblem midpoint_isect resolver_example 1 UP resolver_example_network) 4
       = Some [\<lparr>px = 1000, py = 500, pz = 1000\<rparr>, \<lparr>px = 1000, py = 250, pz = 1125\<rparr>,
               \<lparr>px = 1000, py = 1000, pz = 1500\<rparr>]"
proof -
  have c: "1 < length (cell_data resolver_example)"
    by (simp add: resolver_example_def)
  have facts:
    "length (adjacent_cells (cell_data resolver_example ! 1) DOWN) < 2"
    "2 \<le> length (adjacent_cells (cell_data resolver_example ! 1) UP)"
    "to_index (hd (adjacent_cells (cell_data resolver_example ! 1) UP)) = 4"
    by (simp_all add: resolver_example_def)
  have edges:
    "getEdge resolver_example resolver_example_network 1 LEFT UP
       = Inr [\<lparr>px = 0, py = 0, pz = 0\<rparr>, \<lparr>px = 0, py = 1000, pz = 1000\<rparr>]"
    "getEdge resolver_example resolver_example_network 1 RIGHT UP
       = Inr [\<lparr>px = 2000, py = 0, pz = 0\<rparr>, \<lparr>px = 2000, py = 1000, pz = 1000\<rparr>]"
    "cell_to_right_edge_locations resolver_example_network 4
       = Some [\<lparr>px = 1000, py = 0, pz = 1000\<rparr>, \<lparr>px = 1000, py = 1000, pz = 1500\<rparr>]"
    by (simp_all add: getEdge_def Let_def resolver_example_def resolver_example_network_def)
  have adjusted:
    "adjustEdgeEnd [\<lparr>px = 1000, py = 0, pz = 1000\<rparr>, \<lparr>px = 1000, py = 1000, pz = 1500\<rparr>] DOWN
         \<lparr>px = 1000, py = 500, pz = 1000\<rparr>
       = Inr [\<lparr>px = 1000, py = 500, pz = 1000\<rparr>, \<lparr>px = 1000, py = 250, pz = 1125\<rparr>,
              \<lparr>px = 1000, py = 1000, pz = 1500\<rparr>]"
    by (simp add: adjustEdgeEnd_def insert_at_def geom_defs isqrt_eval Let_def)
  have moved: "right_edge_of
         (preventZdiscontinuityProblem midpoint_isect resolver_example 1 UP resolver_example_network) 4
       = Some [\<lparr>px = 1000, py = 500, pz = 1000\<rparr>, \<lparr>px = 1000, py = 250, pz = 1125\<rparr>,
               \<lparr>px = 1000, py = 1000, pz = 1500\<rparr>]"
    by (simp add: run_defs geom_defs resolver_example_def resolver_example_network_def)
  from preventZdiscontinuityProblem_moves_endpoint
         [OF c, of DOWN midpoint_isect resolver_example_network]
       preventZdiscontinuityProblem_moves_endpoint
         [OF c, of UP midpoint_isect resolver_example_network]
    c facts edges adjusted moved
  show ?thesis by simp
qed

text \<open>
  C9. Depth-ordered reads: whenever the oscillation-constraint routine selects a
  reference edge, the cell it reads has a depth strictly greater than the depth of the
  current cell; and the builder pass over a subdivision never fails the missing-ownership
  assertion. The subdivision is taken as the subdivision module hands it over: every
  layer of the depth ordering holds cells of its depth, every neighbour of a listed cell
  is listed in its layer, lateral neighbours list each other, and a cell with several
  neighbours on a lateral side is coarser than each of them.
\<close>

theorem reference_edge_is_stored:
  "(oscillation_reference sub cell side up_down = Inr (Some (mapping_side, idx))
      \<longrightarrow> idx < length (cell_data sub) \<and> depth cell < depth (cell_data sub ! idx))
   \<and> (wf_view sub \<longrightarrow> builder_pass sub \<noteq> Inl MissingEdge)"
  using oscillation_reference_deeper [of sub cell side up_down mapping_side idx]
    builder_pass_not_missing [of sub]
  by blast

theorem reference_edge_is_stored_witness:
  "oscillation_reference resolver_example (cell_data resolver_example ! 1) RIGHT UP
     = Inr (Some (RIGHT, 5))
   \<and> depth (cell_data resolver_example ! 1) < depth (cell_data resolver_example ! 5)
   \<and> wf_view resolver_example
   \<and> builder_pass resolver_example \<noteq> Inl MissingEdge"
proof -
  have r: "oscillation_reference resolver_example (cell_data resolver_example ! 1) RIGHT UP
     = Inr (Some (RIGHT, 5))"
    by (simp add: oscillation_reference_def Let_def resolver_example_def)
  have w: "wf_view resolver_example"
    by (simp add: wf_view_def layers_by_depth_def neighbours_listed_def lateral_consistent_def
          listed_def resolver_example_def)
  from reference_edge_is_stored [of resolver_example "cell_data resolver_example ! 1" RIGHT UP RIGHT 5]
    r w
  show ?thesis by simp
qed

text \<open>
  C10. A cell without neighbour on a lateral side: the depth probe returns the largest
  value of a \<open>char\<close>, 127, which the code reserves for "no neighbour", and the cell, of
  a depth below that value, has no entry in the mapping of that side after the
  construction, in any build.
\<close>

theorem boundary_cell_owns_no_edge:
  assumes "depth (cell_data sub ! c) < char_max"
  shows "(adjacent_cells (cell_data sub ! c) LEFT = [] \<longrightarrow>
            getNeighborDepth sub (cell_data sub ! c) LEFT = Inr char_max
            \<and> left_edge_of (Cross3DPrismEdgeNetwork debug isect sub) c = None)
       \<and> (adjacent_cells (cell_data sub ! c) RIGHT = [] \<longrightarrow>
            getNeighborDepth sub (cell_data sub ! c) RIGHT = Inr char_max
            \<and> right_edge_of (Cross3DPrismEdgeNetwork debug isect sub) c = None)"
proof (cases "Cross3DPrismEdgeNetwork debug isect sub")
  case (Inl e)
  then show ?thesis
    by (simp add: left_edge_of_def right_edge_of_def getNeighborDepth_def)
next
  case (Inr net)
  note dom = constructor_dom [OF constructor_passes [OF Inr]]
  have "cell_to_left_edge_locations net c = None"
    if "adjacent_cells (cell_data sub ! c) LEFT = []"
  proof -
    from that assms have "\<not> owns_edge sub c LEFT"
      by (simp add: owns_edge_def getNeighborDepth_def)
    with dom(1) have "c \<notin> dom (cell_to_left_edge_locations net)" by simp
    then show ?thesis by (simp add: domIff)
  qed
  moreover have "cell_to_right_edge_locations net c = None"
    if "adjacent_cells (cell_data sub ! c) RIGHT = []"
  proof -
    from that assms have "\<not> owns_edge sub c RIGHT"
      by (simp add: owns_edge_def getNeighborDepth_def)
    with dom(2) have "c \<notin> dom (cell_to_right_edge_locations net)" by simp
    then show ?thesis by (simp add: domIff)
  qed
  ultimately show ?thesis
    by (simp add: left_edge_of_def right_edge_of_def Inr getNeighborDepth_def)
qed

theorem boundary_cell_owns_no_edge_witness:
  "depth (cell_data column_example ! 1) < char_max
   \<and> adjacent_cells (cell_data column_example ! 1) LEFT = []
   \<and> left_edge_of (Cross3DPrismEdgeNetwork (Some rise_above_7_10) midpoint_isect column_example) 1 = None
   \<and> right_edge_of (Cross3DPrismEdgeNetwork (Some rise_above_7_10) midpoint_isect column_example) 1 \<noteq> None
   \<and> depth (cell_data column_example ! 2) < char_max
   \<and> adjacent_cells (cell_data column_example ! 2) RIGHT = []
   \<and> right_edge_of (Cross3DPrismEdgeNetwork (Some rise_above_7_10) midpoint_isect column_example) 2 = None"
proof -
  have c: "depth (cell_data column_example ! 1) < char_max"
    "adjacent_cells (cell_data column_example ! 1) LEFT = []"
    "depth (cell_data column_example ! 2) < char_max"
    "adjacent_cells (cell_data column_example ! 2) RIGHT = []"
    by (simp_all add: column_example_def char_max_def)
  have r: "right_edge_of (Cross3DPrismEdgeNetwork (Some rise_above_7_10) midpoint_isect column_example) 1 \<noteq> None"
    by (simp add: run_defs geom_defs column_example_def rise_above_7_10_def)
  from boundary_cell_owns_no_edge [OF c(1), of "Some rise_above_7_10" midpoint_isect]
       boundary_cell_owns_no_edge [OF c(3), of "Some rise_above_7_10" midpoint_isect]
    c r
  show ?thesis by simp
qed

end
